theory Spec2Isabelle
  imports Complex_Main
begin

section \<open>Python values\<close>

text \<open>
  A Python \<open>str\<close> is a sequence of Unicode code points and \<open>bytes\<close> a sequence of
  octets; both are lists of numbers here.  Access tokens and the authorization key are
  ASCII and are kept as HOL strings.  \<open>None\<close> is the \<open>None\<close> of an option type, and the
  truth value Python gives an object in \<open>if x:\<close> is written out: \<open>None\<close>, the empty
  string, empty bytes and the number zero are false.
\<close>

type_synonym ustring = "nat list"
type_synonym bytes = "nat list"

definition truthy :: "'a list option \<Rightarrow> bool" where
  "truthy v = (case v of None \<Rightarrow> False | Some xs \<Rightarrow> xs \<noteq> [])"

definition truthy_num :: "rat option \<Rightarrow> bool" where
  "truthy_num v = (case v of None \<Rightarrow> False | Some x \<Rightarrow> x \<noteq> 0)"

text \<open>\<open>str.find(sub, start)\<close>: the lowest index at or after \<open>start\<close> where \<open>sub\<close> begins,
  or \<open>-1\<close>.  \<open>find_at sub ys i\<close> searches the suffix \<open>ys\<close> whose first element has index \<open>i\<close>.\<close>

fun find_at :: "'a list \<Rightarrow> 'a list \<Rightarrow> nat \<Rightarrow> int" where
  "find_at sub [] i = (if sub = [] then int i else - 1)"
| "find_at sub (y # ys) i =
     (if take (length sub) (y # ys) = sub then int i else find_at sub ys (Suc i))"

definition py_find :: "'a list \<Rightarrow> 'a list \<Rightarrow> nat \<Rightarrow> int" where
  "py_find xs sub start =
     (if length xs < start then - 1 else find_at sub (drop start xs) start)"

text \<open>\<open>sub in xs\<close> on strings.\<close>

definition py_in :: "'a list \<Rightarrow> 'a list \<Rightarrow> bool" where
  "py_in sub xs = (py_find xs sub 0 \<noteq> - 1)"

text \<open>\<open>xs[start:end]\<close> for a start that is not negative: a negative \<open>end\<close> counts from the
  end of the string, both bounds are clamped to the length, and the slice is empty when
  the bounds cross.\<close>

definition py_slice :: "'a list \<Rightarrow> nat \<Rightarrow> int \<Rightarrow> 'a list" where
  "py_slice xs start end =
     (let n = int (length xs);
          e = (if end < 0 then max 0 (n + end) else min end n)
      in take (nat e - start) (drop start xs))"

text \<open>\<open>str.strip()\<close> removes the white space of \<open>str.isspace\<close> at both ends.\<close>

definition py_isspace :: "nat \<Rightarrow> bool" where
  "py_isspace c =
     ((9 \<le> c \<and> c \<le> 13) \<or> (28 \<le> c \<and> c \<le> 32) \<or> c = 133 \<or> c = 160 \<or> c = 5760 \<or>
      (8192 \<le> c \<and> c \<le> 8202) \<or> c = 8232 \<or> c = 8233 \<or> c = 8239 \<or> c = 8287 \<or> c = 12288)"

definition py_strip :: "ustring \<Rightarrow> ustring" where
  "py_strip xs = rev (dropWhile py_isspace (rev (dropWhile py_isspace xs)))"

section \<open>The outside world\<close>

text \<open>
  Everything the bot does not compute itself is an answer of the environment: the clock,
  the OAuth endpoint, the completion endpoint, the file endpoint, the chat transport, the
  stored sessions and birthday lists, and Python's Unicode case table.  The environment
  is a record of oracles; the \<open>k\<close>-th call of one kind receives the \<open>k\<close>-th answer of that
  kind, and the state counts the calls made so far.  An exception raised by a call is
  one of its possible answers.
\<close>

datatype exn = TimeoutError | OtherError

record datetime =
  dt_timestamp :: rat
  dt_day :: int
  dt_month :: int

text \<open>The OAuth answer: an exception, or a status with the two fields read from the
  body (\<open>None\<close>: the field cannot be read, which raises in the code).\<close>

datatype oauth_reply = OAuthRaise | OAuthResponse int "string option" "int option"

text \<open>The completion answer: an exception, or a status with
  \<open>choices[0].message.content\<close> (\<open>None\<close>: the body has no such path, which raises).\<close>

datatype completion_reply = CompletionRaise exn | CompletionResponse int "ustring option"

datatype download_reply = DownloadRaise exn | DownloadResponse int bytes

record birthday =
  name :: ustring
  day :: int
  month :: int

record world =
  GIGACHAT_AUTH :: "string option"
  clock :: "nat \<Rightarrow> datetime"
  oauth_reply :: "nat \<Rightarrow> oauth_reply"
  completion_reply :: "nat \<Rightarrow> completion_reply"
  download_reply :: "nat \<Rightarrow> download_reply"
  send_reply :: "nat \<Rightarrow> exn option"
  str_upper :: "ustring \<Rightarrow> ustring"
  sessions :: "(int \<times> string) list"
  load_birthdays :: "string \<Rightarrow> birthday list"

text \<open>
  \<open>sessions\<close> is the dictionary of the source in iteration order, its keys already
  read as chat numbers (the bot only ever stores \<open>str(chat.id)\<close>).  \<open>send_reply\<close>
  answers \<open>None\<close> when the transport accepts a message and an exception when it raises.
\<close>

section \<open>Observable events\<close>

datatype model = GigaChat | GigaChat_Max

datatype style = Feminine | Masculine

datatype prompt = GenderPrompt ustring | GreetingPrompt ustring | CardPrompt style ustring

datatype message =
    BirthdayGreeting ustring ustring
  | BirthdayFallback ustring
  | MonthSummary int "(int \<times> ustring) list"
  | MonthEmpty int

datatype log =
    LogOAuthStatus int
  | LogOAuthException
  | LogApiStatus int
  | LogTimeout nat
  | LogRequestError nat
  | LogImageApiStatus int
  | LogImageResponse ustring
  | LogDownloading ustring
  | LogDownloadStatus int
  | LogNoImageTag
  | LogImageTimeout nat
  | LogImageError nat
  | LogPause nat nat
  | LogSendTextError int
  | LogSendCardError int
  | LogSendError int

text \<open>
  \<open>TokenFetched r\<close> marks a return of \<open>get_gigachat_token\<close> with result \<open>r\<close>; the other
  events are the calls that leave the process, in the order the code makes them.
\<close>

datatype event =
    ClockRead
  | OAuthPost
  | TokenFetched "string option"
  | CompletionPost model string prompt
  | FileGet ustring string
  | Sleep nat
  | SendMessage int message
  | SendPhoto int bytes nat ustring
  | Print log

record state =
  cache_token :: "string option"
  cache_expires :: "rat option"
  n_clock :: nat
  n_oauth :: nat
  n_completion :: nat
  n_download :: nat
  n_send :: nat

text \<open>A call returns its value, the events it caused and the state it leaves.\<close>

type_synonym 'a run = "'a \<times> event list \<times> state"

definition IMAGE_DELAY :: nat where
  "IMAGE_DELAY = 30"

definition datetime_now :: "world \<Rightarrow> state \<Rightarrow> datetime run" where
  "datetime_now w s = (clock w (n_clock s), [ClockRead], s\<lparr>n_clock := Suc (n_clock s)\<rparr>)"

section \<open>The token cache\<close>

text \<open>The test of the cache in \<open>get_gigachat_token\<close>: both fields true as Python objects,
  then the clock is read and compared with the expiry less 60 seconds.\<close>

definition cache_valid :: "world \<Rightarrow> state \<Rightarrow> bool run" where
  "cache_valid w s =
     (if truthy (cache_token s) \<and> truthy_num (cache_expires s) then
        (case datetime_now w s of (now, es, s1) \<Rightarrow>
           (case cache_expires s of
              None \<Rightarrow> (False, es, s1)
            | Some expires \<Rightarrow> (dt_timestamp now < expires - 60, es, s1)))
      else (False, [], s))"

text \<open>The rest of \<open>get_gigachat_token\<close>: the OAuth request and what each answer does to
  the cache.  A body whose \<open>access_token\<close> reads but whose \<open>expires_at\<close> does not has
  already stored the token when the exception is raised.\<close>

definition oauth_refresh :: "world \<Rightarrow> state \<Rightarrow> string option run" where
  "oauth_refresh w s =
     (if \<not> truthy (GIGACHAT_AUTH w) then (None, [], s)
      else
        (let s1 = s\<lparr>n_oauth := Suc (n_oauth s)\<rparr> in
         case oauth_reply w (n_oauth s) of
           OAuthRaise \<Rightarrow> (None, [OAuthPost, Print LogOAuthException], s1)
         | OAuthResponse status access_token expires_at \<Rightarrow>
             if status = 200 then
               (case access_token of
                  None \<Rightarrow> (None, [OAuthPost, Print LogOAuthException], s1)
                | Some t \<Rightarrow>
                    (case expires_at of
                       None \<Rightarrow>
                         (None, [OAuthPost, Print LogOAuthException],
                          s1\<lparr>cache_token := Some t\<rparr>)
                     | Some e \<Rightarrow>
                         (Some t, [OAuthPost],
                          s1\<lparr>cache_token := Some t,
                             cache_expires := Some (of_int e / 1000)\<rparr>)))
             else (None, [OAuthPost, Print (LogOAuthStatus status)], s1)))"

definition get_gigachat_token :: "world \<Rightarrow> state \<Rightarrow> string option run" where
  "get_gigachat_token w s =
     (case cache_valid w s of (valid, es, s1) \<Rightarrow>
        (case (if valid then (cache_token s, [], s1) else oauth_refresh w s1) of
           (r, es', s2) \<Rightarrow> (r, es @ es' @ [TokenFetched r], s2)))"

section \<open>Completion requests\<close>

text \<open>One pass of the \<open>for attempt in range(max_retries)\<close> loop of \<open>gigachat_request\<close>:
  \<open>Some content\<close> is the \<open>return\<close> inside the loop, \<open>None\<close> every way of reaching the next
  pass (no token, an exception, a status other than 200).\<close>

definition request_attempt :: "world \<Rightarrow> prompt \<Rightarrow> nat \<Rightarrow> state \<Rightarrow> ustring option run" where
  "request_attempt w messages attempt s =
     (case get_gigachat_token w s of (token, es, s1) \<Rightarrow>
        (case token of
           None \<Rightarrow> (None, es, s1)
         | Some t \<Rightarrow>
             if t = [] then (None, es, s1)
             else
               (let s2 = s1\<lparr>n_completion := Suc (n_completion s1)\<rparr>;
                    post = CompletionPost GigaChat t messages
                in case completion_reply w (n_completion s1) of
                     CompletionRaise TimeoutError \<Rightarrow>
                       (None, es @ [post, Print (LogTimeout (attempt + 1))], s2)
                   | CompletionRaise OtherError \<Rightarrow>
                       (None, es @ [post, Print (LogRequestError (attempt + 1))], s2)
                   | CompletionResponse status body \<Rightarrow>
                       if status = 200 then
                         (case body of
                            None \<Rightarrow> (None, es @ [post, Print (LogRequestError (attempt + 1))], s2)
                          | Some content \<Rightarrow> (Some content, es @ [post], s2))
                       else (None, es @ [post, Print (LogApiStatus status)], s2))))"

text \<open>The loop itself: \<open>attempt\<close> is the loop variable, the second number the passes left.\<close>

fun request_loop :: "world \<Rightarrow> prompt \<Rightarrow> nat \<Rightarrow> nat \<Rightarrow> state \<Rightarrow> ustring option run" where
  "request_loop w messages attempt 0 s = (None, [], s)"
| "request_loop w messages attempt (Suc k) s =
     (case request_attempt w messages attempt s of
        (Some content, es, s1) \<Rightarrow> (Some content, es, s1)
      | (None, es, s1) \<Rightarrow>
          (case request_loop w messages (Suc attempt) k s1 of
             (r, es', s2) \<Rightarrow> (r, es @ es', s2)))"

definition gigachat_request :: "world \<Rightarrow> prompt \<Rightarrow> nat \<Rightarrow> state \<Rightarrow> ustring option run" where
  "gigachat_request w messages max_retries s = request_loop w messages 0 max_retries s"

definition default_max_retries :: nat where
  "default_max_retries = 2"

text \<open>The marker \<open><img src="\<close> and the double quote, as code points.\<close>

definition img_marker :: ustring where
  "img_marker = [60, 105, 109, 103, 32, 115, 114, 99, 61, 34]"

definition dquote :: ustring where
  "dquote = [34]"

text \<open>What the code reads as the file identifier in a content that holds the marker.\<close>

definition extract_file_id :: "ustring \<Rightarrow> ustring" where
  "extract_file_id content =
     (let start = nat (py_find content img_marker 0) + 10;
          end = py_find content dquote start
      in py_slice content start end)"

text \<open>One pass of the loop of \<open>gigachat_generate_image\<close>.\<close>

definition image_attempt :: "world \<Rightarrow> prompt \<Rightarrow> nat \<Rightarrow> state \<Rightarrow> bytes option run" where
  "image_attempt w prompt attempt s =
     (case get_gigachat_token w s of (token, es, s1) \<Rightarrow>
        (case token of
           None \<Rightarrow> (None, es, s1)
         | Some t \<Rightarrow>
             if t = [] then (None, es, s1)
             else
               (let s2 = s1\<lparr>n_completion := Suc (n_completion s1)\<rparr>;
                    post = CompletionPost GigaChat_Max t prompt
                in case completion_reply w (n_completion s1) of
                     CompletionRaise TimeoutError \<Rightarrow>
                       (None, es @ [post, Print (LogImageTimeout (attempt + 1))], s2)
                   | CompletionRaise OtherError \<Rightarrow>
                       (None, es @ [post, Print (LogImageError (attempt + 1))], s2)
                   | CompletionResponse status body \<Rightarrow>
                       if status \<noteq> 200 then
                         (None, es @ [post, Print (LogImageApiStatus status)], s2)
                       else
                         (case body of
                            None \<Rightarrow> (None, es @ [post, Print (LogImageError (attempt + 1))], s2)
                          | Some content \<Rightarrow>
                              if py_in img_marker content then
                                (let file_id = extract_file_id content;
                                     s3 = s2\<lparr>n_download := Suc (n_download s2)\<rparr>;
                                     pre = es @ [post, Print (LogImageResponse (take 200 content)),
                                                 Print (LogDownloading file_id), FileGet file_id t]
                                 in case download_reply w (n_download s2) of
                                      DownloadRaise TimeoutError \<Rightarrow>
                                        (None, pre @ [Print (LogImageTimeout (attempt + 1))], s3)
                                    | DownloadRaise OtherError \<Rightarrow>
                                        (None, pre @ [Print (LogImageError (attempt + 1))], s3)
                                    | DownloadResponse img_status data \<Rightarrow>
                                        if img_status = 200 then (Some data, pre, s3)
                                        else (None, pre @ [Print (LogDownloadStatus img_status)], s3))
                              else
                                (None,
                                 es @ [post, Print (LogImageResponse (take 200 content)),
                                       Print LogNoImageTag],
                                 s2)))))"

fun image_loop :: "world \<Rightarrow> prompt \<Rightarrow> nat \<Rightarrow> nat \<Rightarrow> state \<Rightarrow> bytes option run" where
  "image_loop w prompt attempt 0 s = (None, [], s)"
| "image_loop w prompt attempt (Suc k) s =
     (case image_attempt w prompt attempt s of
        (Some data, es, s1) \<Rightarrow> (Some data, es, s1)
      | (None, es, s1) \<Rightarrow>
          (case image_loop w prompt (Suc attempt) k s1 of
             (r, es', s2) \<Rightarrow> (r, es @ es', s2)))"

definition gigachat_generate_image :: "world \<Rightarrow> prompt \<Rightarrow> nat \<Rightarrow> state \<Rightarrow> bytes option run" where
  "gigachat_generate_image w prompt max_retries s = image_loop w prompt 0 max_retries s"

section \<open>Text and image generators\<close>

text \<open>The Cyrillic capitals Em (U+041C) and Zhe (U+0416) the answer is searched for.\<close>

definition male_marker :: ustring where
  "male_marker = [1052]"

definition female_marker :: ustring where
  "female_marker = [1046]"

definition detect_gender :: "world \<Rightarrow> ustring \<Rightarrow> state \<Rightarrow> string run" where
  "detect_gender w nm s =
     (case gigachat_request w (GenderPrompt nm) default_max_retries s of
        (response, es, s1) \<Rightarrow>
          (case response of
             None \<Rightarrow> (''f'', es, s1)
           | Some r \<Rightarrow>
               if r = [] then (''f'', es, s1)
               else
                 (let response' = str_upper w (py_strip r)
                  in if py_in male_marker response' then (''m'', es, s1)
                     else if py_in female_marker response' then (''f'', es, s1)
                     else (''f'', es, s1))))"

definition generate_greeting :: "world \<Rightarrow> ustring \<Rightarrow> state \<Rightarrow> ustring option run" where
  "generate_greeting w nm s = gigachat_request w (GreetingPrompt nm) default_max_retries s"

definition generate_birthday_card :: "world \<Rightarrow> ustring \<Rightarrow> string \<Rightarrow> state \<Rightarrow> bytes option run" where
  "generate_birthday_card w nm gender s =
     gigachat_generate_image w
       (CardPrompt (if gender = ''f'' then Feminine else Masculine) nm) default_max_retries s"

section \<open>The greeting pipeline\<close>

record greeting_bundle =
  greeting :: "ustring option"
  cards :: "bytes option list"
  gender :: string

text \<open>The announcement and the sleep before every card but the first.\<close>

definition pause_before :: "nat \<Rightarrow> state \<Rightarrow> unit run" where
  "pause_before i s =
     (if 0 < i then ((), [Print (LogPause IMAGE_DELAY (i + 1)), Sleep IMAGE_DELAY], s)
      else ((), [], s))"

text \<open>\<open>for i in range(2)\<close> of \<open>generate_ai_greeting\<close>, over the values \<open>i\<close> still to come,
  with the list \<open>cards\<close> built so far.\<close>

fun cards_loop ::
  "world \<Rightarrow> ustring \<Rightarrow> string \<Rightarrow> nat list \<Rightarrow> bytes option list \<Rightarrow> state \<Rightarrow> bytes option list run"
where
  "cards_loop w nm g [] acc s = (acc, [], s)"
| "cards_loop w nm g (i # rest) acc s =
     (case pause_before i s of (u, es0, s0) \<Rightarrow>
      case generate_birthday_card w nm g s0 of (crd, es1, s1) \<Rightarrow>
      case cards_loop w nm g rest (acc @ [crd]) s1 of (r, es2, s2) \<Rightarrow>
        (r, es0 @ es1 @ es2, s2))"

definition generate_ai_greeting :: "world \<Rightarrow> ustring \<Rightarrow> state \<Rightarrow> greeting_bundle run" where
  "generate_ai_greeting w nm s =
     (case detect_gender w nm s of (g, es1, s1) \<Rightarrow>
      case generate_greeting w nm s1 of (gr, es2, s2) \<Rightarrow>
      case cards_loop w nm g [0..<2] [] s2 of (cs, es3, s3) \<Rightarrow>
        (\<lparr>greeting = gr, cards = cs, gender = g\<rparr>, es1 @ es2 @ es3, s3))"

section \<open>The dispatcher\<close>

text \<open>The two transport calls; the answer is the exception raised, if any.\<close>

definition bot_send_message :: "world \<Rightarrow> int \<Rightarrow> message \<Rightarrow> state \<Rightarrow> exn option run" where
  "bot_send_message w chat_id msg s =
     (send_reply w (n_send s), [SendMessage chat_id msg], s\<lparr>n_send := Suc (n_send s)\<rparr>)"

definition bot_send_photo :: "world \<Rightarrow> int \<Rightarrow> bytes \<Rightarrow> nat \<Rightarrow> ustring \<Rightarrow> state \<Rightarrow> exn option run" where
  "bot_send_photo w chat_id photo i nm s =
     (send_reply w (n_send s), [SendPhoto chat_id photo i nm], s\<lparr>n_send := Suc (n_send s)\<rparr>)"

text \<open>\<open>try: await send ... except Exception as e: print(...)\<close>.\<close>

definition try_send_message :: "world \<Rightarrow> int \<Rightarrow> message \<Rightarrow> log \<Rightarrow> state \<Rightarrow> unit run" where
  "try_send_message w chat_id msg on_error s =
     (case bot_send_message w chat_id msg s of
        (None, es, s1) \<Rightarrow> ((), es, s1)
      | (Some e, es, s1) \<Rightarrow> ((), es @ [Print on_error], s1))"

text \<open>The body of the \<open>try\<close> in the card loop of \<open>daily_birthday_check\<close>: generate, and
  send what is true as a Python object.\<close>

definition try_card :: "world \<Rightarrow> int \<Rightarrow> ustring \<Rightarrow> string \<Rightarrow> nat \<Rightarrow> state \<Rightarrow> unit run" where
  "try_card w chat_id nm g i s =
     (case generate_birthday_card w nm g s of (card_data, es1, s1) \<Rightarrow>
        (case card_data of
           None \<Rightarrow> ((), es1, s1)
         | Some data \<Rightarrow>
             if data = [] then ((), es1, s1)
             else
               (case bot_send_photo w chat_id data (i + 1) nm s1 of
                  (None, es2, s2) \<Rightarrow> ((), es1 @ es2, s2)
                | (Some e, es2, s2) \<Rightarrow>
                    ((), es1 @ es2 @ [Print (LogSendCardError chat_id)], s2))))"

fun send_cards :: "world \<Rightarrow> int \<Rightarrow> ustring \<Rightarrow> string \<Rightarrow> nat list \<Rightarrow> state \<Rightarrow> unit run" where
  "send_cards w chat_id nm g [] s = ((), [], s)"
| "send_cards w chat_id nm g (i # rest) s =
     (case pause_before i s of (u, es0, s0) \<Rightarrow>
      case try_card w chat_id nm g i s0 of (u1, es1, s1) \<Rightarrow>
      case send_cards w chat_id nm g rest s1 of (u2, es2, s2) \<Rightarrow>
        ((), es0 @ es1 @ es2, s2))"

text \<open>The body of \<open>for birthday in today_bdays\<close>.\<close>

definition greet_birthday :: "world \<Rightarrow> int \<Rightarrow> birthday \<Rightarrow> state \<Rightarrow> unit run" where
  "greet_birthday w chat_id b s =
     (case detect_gender w (name b) s of (g, es1, s1) \<Rightarrow>
      case generate_greeting w (name b) s1 of (gr, es2, s2) \<Rightarrow>
        if truthy gr then
          (case try_send_message w chat_id (BirthdayGreeting (name b) (the gr))
                  (LogSendTextError chat_id) s2 of (u, es3, s3) \<Rightarrow>
           case send_cards w chat_id (name b) g [0..<2] s3 of (u1, es4, s4) \<Rightarrow>
             ((), es1 @ es2 @ es3 @ es4, s4))
        else
          (case try_send_message w chat_id (BirthdayFallback (name b))
                  (LogSendError chat_id) s2 of (u, es3, s3) \<Rightarrow>
             ((), es1 @ es2 @ es3, s3)))"

fun greet_birthdays :: "world \<Rightarrow> int \<Rightarrow> birthday list \<Rightarrow> state \<Rightarrow> unit run" where
  "greet_birthdays w chat_id [] s = ((), [], s)"
| "greet_birthdays w chat_id (b # bs) s =
     (case greet_birthday w chat_id b s of (u, es1, s1) \<Rightarrow>
      case greet_birthdays w chat_id bs s1 of (u1, es2, s2) \<Rightarrow> ((), es1 @ es2, s2))"

definition get_birthdays_today :: "world \<Rightarrow> birthday list \<Rightarrow> state \<Rightarrow> birthday list run" where
  "get_birthdays_today w birthdays s =
     (case datetime_now w s of (today, es, s1) \<Rightarrow>
        (filter (\<lambda>b. day b = dt_day today \<and> month b = dt_month today) birthdays, es, s1))"

definition get_birthdays_this_month :: "world \<Rightarrow> birthday list \<Rightarrow> state \<Rightarrow> birthday list run" where
  "get_birthdays_this_month w birthdays s =
     (case datetime_now w s of (today, es, s1) \<Rightarrow>
        (filter (\<lambda>b. month b = dt_month today) birthdays, es, s1))"

text \<open>\<open>for chat_id, code in sessions.items()\<close> of \<open>daily_birthday_check\<close>.\<close>

fun daily_loop :: "world \<Rightarrow> (int \<times> string) list \<Rightarrow> state \<Rightarrow> unit run" where
  "daily_loop w [] s = ((), [], s)"
| "daily_loop w ((chat_id, code) # rest) s =
     (case get_birthdays_today w (load_birthdays w code) s of (today_bdays, es1, s1) \<Rightarrow>
      case greet_birthdays w chat_id today_bdays s1 of (u, es2, s2) \<Rightarrow>
      case daily_loop w rest s2 of (u1, es3, s3) \<Rightarrow> ((), es1 @ es2 @ es3, s3))"

definition daily_birthday_check :: "world \<Rightarrow> state \<Rightarrow> unit run" where
  "daily_birthday_check w s = daily_loop w (sessions w) s"

text \<open>\<open>monthly_reminder\<close>: the month is read once, the list of each user is sorted by day
  (Python's sort is stable, as \<open>sort_key\<close> is).\<close>

definition month_text :: "int \<Rightarrow> birthday list \<Rightarrow> message" where
  "month_text current_month month_bdays =
     (if month_bdays \<noteq> [] then
        MonthSummary current_month (map (\<lambda>b. (day b, name b)) (sort_key day month_bdays))
      else MonthEmpty current_month)"

fun monthly_loop :: "world \<Rightarrow> int \<Rightarrow> (int \<times> string) list \<Rightarrow> state \<Rightarrow> unit run" where
  "monthly_loop w current_month [] s = ((), [], s)"
| "monthly_loop w current_month ((chat_id, code) # rest) s =
     (case get_birthdays_this_month w (load_birthdays w code) s of (month_bdays, es1, s1) \<Rightarrow>
      case try_send_message w chat_id (month_text current_month month_bdays)
             (LogSendError chat_id) s1 of (u, es2, s2) \<Rightarrow>
      case monthly_loop w current_month rest s2 of (u1, es3, s3) \<Rightarrow>
        ((), es1 @ es2 @ es3, s3))"

definition monthly_reminder :: "world \<Rightarrow> state \<Rightarrow> unit run" where
  "monthly_reminder w s =
     (case datetime_now w s of (now, es, s1) \<Rightarrow>
      case monthly_loop w (dt_month now) (sessions w) s1 of (u, es', s2) \<Rightarrow>
        ((), es @ es', s2))"

section \<open>Reading a trace\<close>

definition is_fetch :: "event \<Rightarrow> bool" where
  "is_fetch e = (case e of TokenFetched r \<Rightarrow> True | _ \<Rightarrow> False)"

definition is_post :: "event \<Rightarrow> bool" where
  "is_post e = (case e of CompletionPost m t p \<Rightarrow> True | _ \<Rightarrow> False)"

definition is_image_post :: "event \<Rightarrow> bool" where
  "is_image_post e = (case e of CompletionPost m t p \<Rightarrow> m = GigaChat_Max | _ \<Rightarrow> False)"

definition is_oauth :: "event \<Rightarrow> bool" where
  "is_oauth e = (e = OAuthPost)"

definition is_sleep :: "event \<Rightarrow> bool" where
  "is_sleep e = (case e of Sleep n \<Rightarrow> True | _ \<Rightarrow> False)"

definition is_send :: "event \<Rightarrow> bool" where
  "is_send e = (case e of SendMessage c m \<Rightarrow> True | SendPhoto c d i n \<Rightarrow> True | _ \<Rightarrow> False)"

definition is_photo :: "event \<Rightarrow> bool" where
  "is_photo e = (case e of SendPhoto c d i n \<Rightarrow> True | _ \<Rightarrow> False)"

definition is_download :: "event \<Rightarrow> bool" where
  "is_download e = (case e of FileGet f t \<Rightarrow> True | _ \<Rightarrow> False)"

text \<open>The events a call of \<open>get_gigachat_token\<close> causes before it returns.\<close>

definition token_event :: "event \<Rightarrow> bool" where
  "token_event e = (case e of ClockRead \<Rightarrow> True | OAuthPost \<Rightarrow> True | Print l \<Rightarrow> True | _ \<Rightarrow> False)"

text \<open>Every completion request carries the token that the call of \<open>get_gigachat_token\<close>
  just before it returned.  The first argument is the event before the list.\<close>

fun posts_follow_fetch :: "event option \<Rightarrow> event list \<Rightarrow> bool" where
  "posts_follow_fetch prev [] = True"
| "posts_follow_fetch prev (e # es) =
     ((case e of
         CompletionPost m t p \<Rightarrow> prev = Some (TokenFetched (Some t))
       | _ \<Rightarrow> True) \<and>
      posts_follow_fetch (Some e) es)"

text \<open>Pacing of image requests: \<open>paced_from ok es\<close> holds when every image request in
  \<open>es\<close> comes after a sleep of at least 30 seconds that follows the image request before
  it; \<open>ok\<close> says whether the next image request may go out at once.\<close>

fun paced_from :: "bool \<Rightarrow> event list \<Rightarrow> bool" where
  "paced_from ok [] = True"
| "paced_from ok (e # es) =
     (case e of
        CompletionPost m t p \<Rightarrow>
          if m = GigaChat_Max then ok \<and> paced_from False es else paced_from ok es
      | Sleep n \<Rightarrow> paced_from (ok \<or> 30 \<le> n) es
      | _ \<Rightarrow> paced_from ok es)"

definition paced :: "event list \<Rightarrow> bool" where
  "paced es = paced_from True es"

text \<open>The line the dispatcher prints when a send raises, read off the send.\<close>

definition send_error_log :: "event \<Rightarrow> log" where
  "send_error_log e =
     (case e of
        SendMessage c m \<Rightarrow>
          (case m of BirthdayGreeting n g \<Rightarrow> LogSendTextError c | _ \<Rightarrow> LogSendError c)
      | SendPhoto c d i n \<Rightarrow> LogSendCardError c
      | _ \<Rightarrow> LogSendError 0)"

text \<open>\<open>with_failures f k es\<close> is the trace \<open>es\<close> of a run whose sends all succeed, replayed
  against the transport \<open>f\<close>: after each send that \<open>f\<close> lets fail stands the line the
  handler prints, and nothing else changes.  \<open>k\<close> numbers the next send.\<close>

fun with_failures :: "(nat \<Rightarrow> exn option) \<Rightarrow> nat \<Rightarrow> event list \<Rightarrow> event list" where
  "with_failures f k [] = []"
| "with_failures f k (e # es) =
     (if is_send e then
        (if f k = None then [e] else [e, Print (send_error_log e)]) @ with_failures f (Suc k) es
      else e # with_failures f k es)"

text \<open>\<open>failures_logged f k es\<close>: in the trace \<open>es\<close>, whose next send is number \<open>k\<close>, every
  send that the transport \<open>f\<close> refuses is directly followed by the line its handler
  prints.\<close>

fun failures_logged :: "(nat \<Rightarrow> exn option) \<Rightarrow> nat \<Rightarrow> event list \<Rightarrow> bool" where
  "failures_logged f k [] = True"
| "failures_logged f k (e # es) =
     (if is_send e then
        (f k = None \<or> take 1 es = [Print (send_error_log e)]) \<and> failures_logged f (Suc k) es
      else failures_logged f k es)"

text \<open>The lines printed by the three handlers around the sends of the dispatcher.\<close>

definition is_send_log :: "event \<Rightarrow> bool" where
  "is_send_log e =
     (case e of
        Print l \<Rightarrow>
          (case l of
             LogSendTextError c \<Rightarrow> True
           | LogSendCardError c \<Rightarrow> True
           | LogSendError c \<Rightarrow> True
           | _ \<Rightarrow> False)
      | _ \<Rightarrow> False)"

text \<open>The birthday texts in a trace, greeting or fallback, each as the recipient and the
  subject it is about; and the greetings among them.\<close>

definition text_to :: "event \<Rightarrow> (int \<times> ustring) list" where
  "text_to e =
     (case e of
        SendMessage c m \<Rightarrow>
          (case m of BirthdayGreeting n g \<Rightarrow> [(c, n)] | BirthdayFallback n \<Rightarrow> [(c, n)] | _ \<Rightarrow> [])
      | _ \<Rightarrow> [])"

definition texts_handed :: "event list \<Rightarrow> (int \<times> ustring) list" where
  "texts_handed es = concat (map text_to es)"

definition is_greeting :: "event \<Rightarrow> bool" where
  "is_greeting e =
     (case e of
        SendMessage c m \<Rightarrow> (case m of BirthdayGreeting n g \<Rightarrow> True | _ \<Rightarrow> False)
      | _ \<Rightarrow> False)"

text \<open>What a trace hands over of the bundles: for each greeting text the recipient, the
  subject and slot 0, for each photo the recipient, the subject and the number of the
  card in its caption.\<close>

definition handed :: "event \<Rightarrow> (int \<times> ustring \<times> nat) list" where
  "handed e =
     (case e of
        SendMessage c m \<Rightarrow> (case m of BirthdayGreeting n g \<Rightarrow> [(c, n, 0)] | _ \<Rightarrow> [])
      | SendPhoto c d i n \<Rightarrow> [(c, n, i)]
      | _ \<Rightarrow> [])"

definition bundles_handed :: "event list \<Rightarrow> (int \<times> ustring \<times> nat) list" where
  "bundles_handed es = concat (map handed es)"

text \<open>The same world with a transport that never fails, the number of sends in a trace,
  and a run replayed against a transport.\<close>

definition calm :: "world \<Rightarrow> world" where
  "calm w = w\<lparr>send_reply := (\<lambda>k. None)\<rparr>"

definition send_count :: "event list \<Rightarrow> nat" where
  "send_count es = length (filter is_send es)"

definition replay :: "(nat \<Rightarrow> exn option) \<Rightarrow> nat \<Rightarrow> 'a run \<Rightarrow> 'a run" where
  "replay f k r = (case r of (a, es, s) \<Rightarrow> (a, with_failures f k es, s))"

text \<open>\<open>replayed w s r r0\<close>: \<open>r\<close>, the run of a call in the world \<open>w\<close> from the state
  \<open>s\<close>, is its run \<open>r0\<close> in the calm world replayed against the transport of \<open>w\<close>, and
  the send counter has advanced by the sends made.\<close>

definition replayed :: "world \<Rightarrow> state \<Rightarrow> 'a run \<Rightarrow> 'a run \<Rightarrow> bool" where
  "replayed w s r r0 =
     (r = replay (send_reply w) (n_send s) r0 \<and>
      n_send (snd (snd r0)) = n_send s + send_count (fst (snd r0)))"

text \<open>What handing a generated card to the transport leaves in the trace, as send
  number \<open>k\<close>: nothing for a card that is \<open>None\<close> or empty, else the photo and, when the
  transport raises, the line of the handler.\<close>

definition photo_attempt :: "world \<Rightarrow> int \<Rightarrow> ustring \<Rightarrow> nat \<Rightarrow> bytes option \<Rightarrow> nat \<Rightarrow> event list" where
  "photo_attempt w chat_id nm i card_data k =
     (case card_data of
        None \<Rightarrow> []
      | Some d \<Rightarrow>
          if d = [] then []
          else SendPhoto chat_id d i nm #
               (if send_reply w k = None then [] else [Print (LogSendCardError chat_id)]))"

text \<open>The send counter after such a hand-over.\<close>

definition after_photo :: "bytes option \<Rightarrow> state \<Rightarrow> state" where
  "after_photo card_data s = (if truthy card_data then s\<lparr>n_send := Suc (n_send s)\<rparr> else s)"

text \<open>The condition of the spec for serving the cache: a credential is cached (both
  fields true as Python objects) and the clock stands more than 60 seconds before its
  expiry.\<close>

definition credential_fresh :: "world \<Rightarrow> state \<Rightarrow> bool" where
  "credential_fresh w s =
     (\<exists>tok expires. cache_token s = Some tok \<and> tok \<noteq> [] \<and>
        cache_expires s = Some expires \<and> expires \<noteq> 0 \<and>
        dt_timestamp (clock w (n_clock s)) < expires - 60)"

section \<open>Concrete environments\<close>

text \<open>Answers given in order, then a default.\<close>

fun from_list :: "'a list \<Rightarrow> 'a \<Rightarrow> nat \<Rightarrow> 'a" where
  "from_list [] d n = d"
| "from_list (x # xs) d 0 = x"
| "from_list (x # xs) d (Suc n) = from_list xs d n"

definition init_state :: state where
  "init_state =
     \<lparr>cache_token = None, cache_expires = None, n_clock = 0, n_oauth = 0,
      n_completion = 0, n_download = 0, n_send = 0\<rparr>"

definition demo_clock :: "nat \<Rightarrow> datetime" where
  "demo_clock n = \<lparr>dt_timestamp = 1000 + of_nat n, dt_day = 4, dt_month = 11\<rparr>"

text \<open>Upper case for ASCII and the basic Cyrillic letters.\<close>

definition demo_upper :: "ustring \<Rightarrow> ustring" where
  "demo_upper =
     map (\<lambda>c. if (97 \<le> c \<and> c \<le> 122) \<or> (1072 \<le> c \<and> c \<le> 1103) then c - 32 else c)"

definition anna :: birthday where
  "anna = \<lparr>name = [1040, 1085, 1103], day = 4, month = 11\<rparr>"

definition oleg :: birthday where
  "oleg = \<lparr>name = [1054, 1083, 1077, 1075], day = 4, month = 11\<rparr>"

definition demo_birthdays :: "string \<Rightarrow> birthday list" where
  "demo_birthdays code =
     (if code = ''7'' then [anna, oleg]
      else if code = ''2'' then [oleg]
      else [])"

text \<open>A completion content with an image tag (\<open><img src="ab" />\<close>) and one without.\<close>

definition tagged_content :: ustring where
  "tagged_content = img_marker @ [97, 98, 34, 32, 47, 62]"

definition plain_content :: ustring where
  "plain_content = [110, 111]"

definition demo_world ::
  "completion_reply list \<Rightarrow> completion_reply \<Rightarrow> download_reply list \<Rightarrow> (nat \<Rightarrow> exn option) \<Rightarrow>
   (int \<times> string) list \<Rightarrow> world"
where
  "demo_world replies dflt downloads sends sess =
     \<lparr>GIGACHAT_AUTH = Some ''key'',
      clock = demo_clock,
      oauth_reply = (\<lambda>k. OAuthResponse 200 (Some ''tokenA'') (Some 5000000)),
      completion_reply = from_list replies dflt,
      download_reply = from_list downloads (DownloadResponse 200 [1, 2, 3]),
      send_reply = sends,
      str_upper = demo_upper,
      sessions = sess,
      load_birthdays = demo_birthdays\<rparr>"

text \<open>Cached credentials that expire 30 and 120 seconds after the first reading of
  \<open>demo_clock\<close>, which is 1000.\<close>

definition cached_until :: "rat \<Rightarrow> state" where
  "cached_until t = init_state\<lparr>cache_token := Some ''tokenOld'', cache_expires := Some t\<rparr>"

definition quiet_world :: world where
  "quiet_world =
     demo_world [] (CompletionResponse 200 (Some tagged_content)) [] (\<lambda>k. None) [(101, ''7'')]"

text \<open>A completion answer that makes the attempt fail: an exception (a timeout among
  them), a status other than 200, or a body without \<open>choices[0].message.content\<close>.\<close>

definition completion_fails :: "completion_reply \<Rightarrow> bool" where
  "completion_fails r =
     (case r of
        CompletionRaise e \<Rightarrow> True
      | CompletionResponse status body \<Rightarrow> status \<noteq> 200 \<or> body = None)"

definition timeout_world :: world where
  "timeout_world = demo_world [] (CompletionRaise TimeoutError) [] (\<lambda>k. None) [(101, ''7'')]"

definition no_auth_world :: world where
  "no_auth_world = timeout_world\<lparr>GIGACHAT_AUTH := None\<rparr>"

text \<open>A world whose first completion answers 200 with the given content.\<close>

definition answer_world :: "ustring \<Rightarrow> world" where
  "answer_world r =
     demo_world [CompletionResponse 200 (Some r)] (CompletionResponse 200 (Some tagged_content)) []
       (\<lambda>k. None) [(101, ''7'')]"

text \<open>A world in which everything is generated and the first send, the greeting text,
  is refused by the transport.\<close>

definition text_fail_world :: world where
  "text_fail_world = quiet_world\<lparr>send_reply := from_list [Some OtherError] None\<rparr>"

text \<open>A world in which every completion carries an image tag and the file endpoint
  answers as listed, then with 200.\<close>

definition download_world :: "download_reply list \<Rightarrow> world" where
  "download_world ds =
     demo_world [] (CompletionResponse 200 (Some tagged_content)) ds (\<lambda>k. None) [(101, ''7'')]"

definition not_found :: download_reply where
  "not_found = DownloadResponse 404 []"

text \<open>Worlds for the image loop: the first completion comes without an image tag and
  the second with one; and every completion has a tag but the first download is
  refused.\<close>

definition tag_late_world :: world where
  "tag_late_world =
     demo_world [CompletionResponse 200 (Some plain_content)]
       (CompletionResponse 200 (Some tagged_content)) [] (\<lambda>k. None) [(101, ''7'')]"

definition download_late_world :: world where
  "download_late_world = download_world [not_found]"

section \<open>Callers that overlap\<close>

text \<open>
  The coroutines of one asyncio event loop run one at a time and change hands only at an
  \<open>await\<close> that suspends.  In \<open>get_gigachat_token\<close> that is the OAuth request: the
  coroutine tests the cache and sends the request in one piece, is suspended until the
  answer is there, and then stores and returns in one piece.  A caller is therefore
  about to start, waiting for answer number \<open>k\<close>, or done with a result.
\<close>

datatype caller = Ready | Waiting nat | Done "string option"

text \<open>From the call to the suspension: lines 126 to 149 of the source.\<close>

definition token_begin :: "world \<Rightarrow> state \<Rightarrow> caller run" where
  "token_begin w s =
     (case cache_valid w s of (valid, es, s1) \<Rightarrow>
        if valid then (Done (cache_token s), es, s1)
        else if \<not> truthy (GIGACHAT_AUTH w) then (Done None, es, s1)
        else (Waiting (n_oauth s1), es @ [OAuthPost], s1\<lparr>n_oauth := Suc (n_oauth s1)\<rparr>))"

text \<open>From the answer to the return: lines 150 to 160.\<close>

definition token_finish :: "world \<Rightarrow> nat \<Rightarrow> state \<Rightarrow> caller run" where
  "token_finish w k s =
     (case oauth_reply w k of
        OAuthRaise \<Rightarrow> (Done None, [Print LogOAuthException], s)
      | OAuthResponse status access_token expires_at \<Rightarrow>
          if status = 200 then
            (case access_token of
               None \<Rightarrow> (Done None, [Print LogOAuthException], s)
             | Some t \<Rightarrow>
                 (case expires_at of
                    None \<Rightarrow> (Done None, [Print LogOAuthException], s\<lparr>cache_token := Some t\<rparr>)
                  | Some e \<Rightarrow>
                      (Done (Some t), [],
                       s\<lparr>cache_token := Some t, cache_expires := Some (of_int e / 1000)\<rparr>)))
          else (Done None, [Print (LogOAuthStatus status)], s))"

definition caller_step :: "world \<Rightarrow> caller \<Rightarrow> state \<Rightarrow> caller run" where
  "caller_step w c s =
     (case c of
        Ready \<Rightarrow> token_begin w s
      | Waiting k \<Rightarrow> token_finish w k s
      | Done r \<Rightarrow> (Done r, [], s))"

text \<open>A schedule names the caller that runs next, piece by piece.\<close>

fun run_schedule :: "world \<Rightarrow> nat list \<Rightarrow> caller list \<Rightarrow> state \<Rightarrow> caller list run" where
  "run_schedule w [] cs s = (cs, [], s)"
| "run_schedule w (i # sched) cs s =
     (if i < length cs then
        (case caller_step w (cs ! i) s of (c, es, s1) \<Rightarrow>
         case run_schedule w sched (cs[i := c]) s1 of (cs', es', s2) \<Rightarrow> (cs', es @ es', s2))
      else run_schedule w sched cs s)"

text \<open>One caller run to its end without anyone in between.\<close>

definition token_alone :: "world \<Rightarrow> state \<Rightarrow> string option run" where
  "token_alone w s =
     (case run_schedule w [0, 0] [Ready] s of
        (cs, es, s1) \<Rightarrow>
          (case cs of
             [Done r] \<Rightarrow> (r, es @ [TokenFetched r], s1)
           | _ \<Rightarrow> (None, es, s1)))"

text \<open>\<open>n\<close> calls of \<open>get_gigachat_token\<close> one after the other.\<close>

fun token_calls :: "world \<Rightarrow> nat \<Rightarrow> state \<Rightarrow> string option list run" where
  "token_calls w 0 s = ([], [], s)"
| "token_calls w (Suc n) s =
     (case get_gigachat_token w s of (r, es, s1) \<Rightarrow>
      case token_calls w n s1 of (rs, es', s2) \<Rightarrow> (r # rs, es @ es', s2))"

text \<open>Three recipients with one subject each; the fourth send, the greeting text of the
  second recipient, is refused by the transport.\<close>

definition three_recipients_world :: world where
  "three_recipients_world =
     demo_world [] (CompletionResponse 200 (Some tagged_content)) []
       (from_list [None, None, None, Some OtherError] None)
       [(101, ''2''), (102, ''2''), (103, ''2'')]"

text \<open>A provider whose first token is already past its expiry when it arrives and whose
  first completion is refused: the second attempt has to fetch again.\<close>

definition rotating_world :: world where
  "rotating_world =
     (demo_world [CompletionResponse 401 None] (CompletionResponse 200 (Some plain_content)) []
        (\<lambda>k. None) [(101, ''7'')])
     \<lparr>oauth_reply :=
        from_list [OAuthResponse 200 (Some ''tokenA'') (Some 1000000)]
          (OAuthResponse 200 (Some ''tokenB'') (Some 5000000))\<rparr>"

section \<open>Facts about strings\<close>

lemma find_at_single: "(find_at [c] ys i \<noteq> - 1) = (c \<in> set ys)"
  by (induction ys arbitrary: i) auto

lemma py_in_single: "py_in [c] xs = (c \<in> set xs)"
  by (simp add: py_in_def py_find_def find_at_single)

section \<open>Facts about the token cache\<close>

lemma cache_valid_cases:
  "cache_valid w s =
     (if truthy (cache_token s) \<and> truthy_num (cache_expires s)
      then (dt_timestamp (clock w (n_clock s)) < the (cache_expires s) - 60, [ClockRead],
            s\<lparr>n_clock := Suc (n_clock s)\<rparr>)
      else (False, [], s))"
  by (auto simp: cache_valid_def datetime_now_def truthy_num_def split: option.splits)

lemma cache_valid_fresh:
  "credential_fresh w s \<Longrightarrow>
     cache_valid w s = (True, [ClockRead], s\<lparr>n_clock := Suc (n_clock s)\<rparr>)"
  by (auto simp: cache_valid_cases credential_fresh_def truthy_def truthy_num_def)

lemma cache_valid_stale:
  "\<not> credential_fresh w s \<Longrightarrow> fst (cache_valid w s) = False"
  by (auto simp: cache_valid_cases credential_fresh_def truthy_def truthy_num_def
      split: option.splits)

lemma cache_valid_state:
  "n_oauth (snd (snd (cache_valid w s))) = n_oauth s"
  by (simp add: cache_valid_cases)

lemma oauth_refresh_posts:
  "truthy (GIGACHAT_AUTH w) \<Longrightarrow> OAuthPost \<in> set (fst (snd (oauth_refresh w s)))"
  by (auto simp: oauth_refresh_def Let_def split: oauth_reply.splits option.splits)

lemma oauth_refresh_none:
  "\<not> truthy (GIGACHAT_AUTH w) \<Longrightarrow> oauth_refresh w s = (None, [], s)"
  by (simp add: oauth_refresh_def)

lemma oauth_refresh_ok:
  "truthy (GIGACHAT_AUTH w) \<Longrightarrow> oauth_reply w (n_oauth s) = OAuthResponse 200 (Some t) (Some e) \<Longrightarrow>
     oauth_refresh w s =
       (Some t, [OAuthPost],
        s\<lparr>n_oauth := Suc (n_oauth s), cache_token := Some t,
          cache_expires := Some (of_int e / 1000)\<rparr>)"
  by (simp add: oauth_refresh_def)

lemma get_token_fresh:
  "credential_fresh w s \<Longrightarrow>
     get_gigachat_token w s =
       (cache_token s, [ClockRead, TokenFetched (cache_token s)],
        s\<lparr>n_clock := Suc (n_clock s)\<rparr>)"
  by (simp add: get_gigachat_token_def cache_valid_fresh)

lemma get_token_stale:
  "\<not> credential_fresh w s \<Longrightarrow>
     get_gigachat_token w s =
       (case oauth_refresh w (snd (snd (cache_valid w s))) of
          (r, es, s2) \<Rightarrow> (r, fst (snd (cache_valid w s)) @ es @ [TokenFetched r], s2))"
  using cache_valid_stale [of w s]
  by (cases "cache_valid w s") (simp add: get_gigachat_token_def)

text \<open>
  C3.  \<open>get_gigachat_token\<close> returns the cached token without an OAuth request exactly
  when a credential is cached and the clock stands more than 60 seconds before its
  expiry.  A credential that expires 30 seconds from now is refreshed, one that expires
  120 seconds from now is served from the cache, and a refresh that succeeds stores the
  provider's millisecond timestamp divided by 1000.
\<close>

theorem token_cache_skew:
  "((fst (get_gigachat_token w s) = cache_token s \<and> cache_token s \<noteq> None \<and>
       OAuthPost \<notin> set (fst (snd (get_gigachat_token w s))))
      = credential_fresh w s) \<and>
   (cache_token s1 = Some tok1 \<and> truthy (GIGACHAT_AUTH w) \<and>
      cache_expires s1 = Some (dt_timestamp (clock w (n_clock s1)) + 30)
      \<longrightarrow> OAuthPost \<in> set (fst (snd (get_gigachat_token w s1)))) \<and>
   (cache_token s2 = Some tok2 \<and> tok2 \<noteq> [] \<and> 0 \<le> dt_timestamp (clock w (n_clock s2)) \<and>
      cache_expires s2 = Some (dt_timestamp (clock w (n_clock s2)) + 120)
      \<longrightarrow> get_gigachat_token w s2 =
            (Some tok2, [ClockRead, TokenFetched (Some tok2)],
             s2\<lparr>n_clock := Suc (n_clock s2)\<rparr>)) \<and>
   (\<not> credential_fresh w s3 \<and> truthy (GIGACHAT_AUTH w) \<and>
      oauth_reply w (n_oauth s3) = OAuthResponse 200 (Some t) (Some e)
      \<longrightarrow> fst (get_gigachat_token w s3) = Some t \<and>
          cache_token (snd (snd (get_gigachat_token w s3))) = Some t \<and>
          cache_expires (snd (snd (get_gigachat_token w s3))) = Some (of_int e / 1000))"
proof -
  have p1: "(fst (get_gigachat_token w s) = cache_token s \<and> cache_token s \<noteq> None \<and>
       OAuthPost \<notin> set (fst (snd (get_gigachat_token w s))))
      = credential_fresh w s"
  proof (cases "credential_fresh w s")
    case True
    then show ?thesis by (auto simp: get_token_fresh credential_fresh_def)
  next
    case stale: False
    show ?thesis
    proof (cases "truthy (GIGACHAT_AUTH w)")
      case True
      have "OAuthPost \<in> set (fst (snd (get_gigachat_token w s)))"
        using oauth_refresh_posts [OF True, of "snd (snd (cache_valid w s))"]
        by (auto simp: get_token_stale [OF stale] split: prod.splits)
      with stale show ?thesis by simp
    next
      case False
      have "fst (get_gigachat_token w s) = None"
        by (simp add: get_token_stale [OF stale] oauth_refresh_none [OF False])
      with stale show ?thesis by auto
    qed
  qed
  have p2: "OAuthPost \<in> set (fst (snd (get_gigachat_token w s1)))"
    if a: "cache_token s1 = Some tok1 \<and> truthy (GIGACHAT_AUTH w) \<and>
      cache_expires s1 = Some (dt_timestamp (clock w (n_clock s1)) + 30)"
  proof -
    from a have stale: "\<not> credential_fresh w s1"
      by (auto simp: credential_fresh_def)
    from a have auth: "truthy (GIGACHAT_AUTH w)" by simp
    show ?thesis
      using oauth_refresh_posts [OF auth, of "snd (snd (cache_valid w s1))"]
      by (auto simp: get_token_stale [OF stale] split: prod.splits)
  qed
  have p3: "get_gigachat_token w s2 =
            (Some tok2, [ClockRead, TokenFetched (Some tok2)], s2\<lparr>n_clock := Suc (n_clock s2)\<rparr>)"
    if a: "cache_token s2 = Some tok2 \<and> tok2 \<noteq> [] \<and> 0 \<le> dt_timestamp (clock w (n_clock s2)) \<and>
      cache_expires s2 = Some (dt_timestamp (clock w (n_clock s2)) + 120)"
  proof -
    from a have "credential_fresh w s2"
      by (auto simp: credential_fresh_def)
    from get_token_fresh [OF this] a show ?thesis by simp
  qed
  have p4: "fst (get_gigachat_token w s3) = Some t \<and>
          cache_token (snd (snd (get_gigachat_token w s3))) = Some t \<and>
          cache_expires (snd (snd (get_gigachat_token w s3))) = Some (of_int e / 1000)"
    if a: "\<not> credential_fresh w s3 \<and> truthy (GIGACHAT_AUTH w) \<and>
      oauth_reply w (n_oauth s3) = OAuthResponse 200 (Some t) (Some e)"
  proof -
    from a have stale: "\<not> credential_fresh w s3" and auth: "truthy (GIGACHAT_AUTH w)"
      and reply: "oauth_reply w (n_oauth (snd (snd (cache_valid w s3)))) =
                    OAuthResponse 200 (Some t) (Some e)"
      by (simp_all add: cache_valid_state)
    have eq: "get_gigachat_token w s3 =
        (Some t, fst (snd (cache_valid w s3)) @ [OAuthPost, TokenFetched (Some t)],
         (snd (snd (cache_valid w s3)))\<lparr>n_oauth := Suc (n_oauth (snd (snd (cache_valid w s3)))),
            cache_token := Some t, cache_expires := Some (of_int e / 1000)\<rparr>)"
      by (simp add: get_token_stale [OF stale] oauth_refresh_ok [OF auth reply])
    show ?thesis by (simp add: eq)
  qed
  from p1 p2 p3 p4 show ?thesis by blast
qed

theorem token_cache_skew_witness:
  "cache_token (cached_until 1030) = Some ''tokenOld'' \<and> truthy (GIGACHAT_AUTH quiet_world) \<and>
   cache_expires (cached_until 1030) =
     Some (dt_timestamp (clock quiet_world (n_clock (cached_until 1030))) + 30) \<and>
   OAuthPost \<in> set (fst (snd (get_gigachat_token quiet_world (cached_until 1030)))) \<and>
   cache_expires (cached_until 1120) =
     Some (dt_timestamp (clock quiet_world (n_clock (cached_until 1120))) + 120) \<and>
   get_gigachat_token quiet_world (cached_until 1120) =
     (Some ''tokenOld'', [ClockRead, TokenFetched (Some ''tokenOld'')],
      (cached_until 1120)\<lparr>n_clock := Suc 0\<rparr>) \<and>
   \<not> credential_fresh quiet_world init_state \<and>
   oauth_reply quiet_world (n_oauth init_state) =
     OAuthResponse 200 (Some ''tokenA'') (Some 5000000) \<and>
   fst (get_gigachat_token quiet_world init_state) = Some ''tokenA'' \<and>
   cache_expires (snd (snd (get_gigachat_token quiet_world init_state))) = Some 5000"
proof -
  have h1: "cache_token (cached_until 1030) = Some ''tokenOld'' \<and>
      truthy (GIGACHAT_AUTH quiet_world) \<and>
      cache_expires (cached_until 1030) =
        Some (dt_timestamp (clock quiet_world (n_clock (cached_until 1030))) + 30)"
    by (simp add: cached_until_def quiet_world_def demo_world_def demo_clock_def
        init_state_def truthy_def)
  have h2: "cache_token (cached_until 1120) = Some ''tokenOld'' \<and> ''tokenOld'' \<noteq> [] \<and>
      0 \<le> dt_timestamp (clock quiet_world (n_clock (cached_until 1120))) \<and>
      cache_expires (cached_until 1120) =
        Some (dt_timestamp (clock quiet_world (n_clock (cached_until 1120))) + 120)"
    by (simp add: cached_until_def quiet_world_def demo_world_def demo_clock_def init_state_def)
  have h3: "\<not> credential_fresh quiet_world init_state \<and> truthy (GIGACHAT_AUTH quiet_world) \<and>
      oauth_reply quiet_world (n_oauth init_state) =
        OAuthResponse 200 (Some ''tokenA'') (Some 5000000)"
    by (simp add: credential_fresh_def quiet_world_def demo_world_def init_state_def truthy_def)
  have n: "n_clock (cached_until 1120) = 0"
    by (simp add: cached_until_def init_state_def)
  from token_cache_skew [of quiet_world init_state "cached_until 1030" "''tokenOld''"
      "cached_until 1120" "''tokenOld''" init_state "''tokenA''" 5000000] h1 h2 h3 n
  show ?thesis by simp
qed

section \<open>The shape of the traces\<close>

lemma cache_valid_events: "list_all token_event (fst (snd (cache_valid w s)))"
  by (simp add: cache_valid_cases token_event_def)

lemma oauth_refresh_events: "list_all token_event (fst (snd (oauth_refresh w s)))"
  by (simp add: oauth_refresh_def token_event_def Let_def split: oauth_reply.splits option.splits)

lemma get_token_shape:
  "\<exists>pre. fst (snd (get_gigachat_token w s)) = pre @ [TokenFetched (fst (get_gigachat_token w s))] \<and>
     list_all token_event pre"
proof (cases "cache_valid w s")
  case (fields valid es s1)
  then have es: "list_all token_event es"
    using cache_valid_events [of w s] by simp
  show ?thesis
  proof (cases "oauth_refresh w s1")
    case r: (fields r es' s2)
    then have "list_all token_event es'"
      using oauth_refresh_events [of w s1] by simp
    with es fields r show ?thesis
      by (cases valid) (auto simp: get_gigachat_token_def)
  qed
qed

lemma get_token_filters:
  "filter is_fetch (fst (snd (get_gigachat_token w s))) = [TokenFetched (fst (get_gigachat_token w s))]"
  "filter is_post (fst (snd (get_gigachat_token w s))) = []"
  "filter is_send (fst (snd (get_gigachat_token w s))) = []"
  "filter is_sleep (fst (snd (get_gigachat_token w s))) = []"
  "filter is_download (fst (snd (get_gigachat_token w s))) = []"
  "filter is_image_post (fst (snd (get_gigachat_token w s))) = []"
  using get_token_shape [of w s]
  by (auto simp: filter_empty_conv list_all_iff token_event_def is_fetch_def is_post_def is_send_def
      is_sleep_def is_download_def is_image_post_def filter_id_conv split: event.splits)

lemma posts_follow_fetch_append:
  "posts_follow_fetch prev (xs @ ys) =
     (posts_follow_fetch prev xs \<and> posts_follow_fetch (if xs = [] then prev else Some (last xs)) ys)"
  by (induction xs arbitrary: prev) auto

lemma posts_follow_fetch_quiet:
  "filter is_post xs = [] \<Longrightarrow> posts_follow_fetch prev xs"
  by (induction xs arbitrary: prev) (auto simp: is_post_def split: event.splits if_splits)

lemma get_token_follow: "posts_follow_fetch prev (fst (snd (get_gigachat_token w s)))"
  by (simp add: posts_follow_fetch_quiet get_token_filters)

lemma get_token_last:
  "fst (snd (get_gigachat_token w s)) \<noteq> [] \<and>
   last (fst (snd (get_gigachat_token w s))) = TokenFetched (fst (get_gigachat_token w s))"
  using get_token_shape [of w s] by auto

lemma get_token_n_send: "n_send (snd (snd (get_gigachat_token w s))) = n_send s"
  by (simp add: get_gigachat_token_def cache_valid_cases oauth_refresh_def Let_def
      split: prod.splits oauth_reply.splits option.splits if_splits)

lemma cache_valid_send_reply:
  "cache_valid (w\<lparr>send_reply := f\<rparr>) s = cache_valid w s"
  by (simp add: cache_valid_cases)

lemma oauth_refresh_send_reply:
  "oauth_refresh (w\<lparr>send_reply := f\<rparr>) s = oauth_refresh w s"
  by (simp add: oauth_refresh_def)

lemma get_token_send_reply:
  "get_gigachat_token (w\<lparr>send_reply := f\<rparr>) s = get_gigachat_token w s"
  by (simp add: get_gigachat_token_def cache_valid_send_reply oauth_refresh_send_reply cong: if_cong)

lemmas trace_defs = is_fetch_def is_post_def is_send_def is_sleep_def is_download_def
  is_image_post_def is_photo_def is_oauth_def

lemma get_token_facts:
  assumes "get_gigachat_token w s = (token, es, s1)"
  shows "filter is_fetch es = [TokenFetched token]" "filter is_post es = []"
    "filter is_send es = []" "filter is_sleep es = []" "filter is_download es = []"
    "filter is_image_post es = []" "es \<noteq> []" "last es = TokenFetched token"
    "n_send s1 = n_send s"
  using get_token_filters [of w s] get_token_last [of w s] get_token_n_send [of w s] assms
  by simp_all

lemma request_attempt_trace:
  "length (filter is_fetch (fst (snd (request_attempt w p a s)))) = 1 \<and>
   length (filter is_post (fst (snd (request_attempt w p a s)))) \<le> 1 \<and>
   posts_follow_fetch prev (fst (snd (request_attempt w p a s))) \<and>
   filter is_send (fst (snd (request_attempt w p a s))) = [] \<and>
   filter is_sleep (fst (snd (request_attempt w p a s))) = [] \<and>
   filter is_download (fst (snd (request_attempt w p a s))) = [] \<and>
   filter is_image_post (fst (snd (request_attempt w p a s))) = [] \<and>
   n_send (snd (snd (request_attempt w p a s))) = n_send s"
proof (cases "get_gigachat_token w s")
  case (fields token es s1)
  note f = get_token_facts [OF fields]
  have pf: "posts_follow_fetch prev es"
    using get_token_follow [of prev w s] fields by simp
  show ?thesis
    using f pf
    by (simp add: request_attempt_def fields Let_def trace_defs posts_follow_fetch_append
        split: option.splits completion_reply.splits exn.splits)
qed

lemma image_attempt_trace:
  "length (filter is_fetch (fst (snd (image_attempt w p a s)))) = 1 \<and>
   length (filter is_post (fst (snd (image_attempt w p a s)))) \<le> 1 \<and>
   posts_follow_fetch prev (fst (snd (image_attempt w p a s))) \<and>
   filter is_send (fst (snd (image_attempt w p a s))) = [] \<and>
   filter is_sleep (fst (snd (image_attempt w p a s))) = [] \<and>
   n_send (snd (snd (image_attempt w p a s))) = n_send s"
proof (cases "get_gigachat_token w s")
  case (fields token es s1)
  note f = get_token_facts [OF fields]
  have pf: "posts_follow_fetch prev es"
    using get_token_follow [of prev w s] fields by simp
  show ?thesis
    using f pf
    by (simp add: image_attempt_def fields Let_def trace_defs posts_follow_fetch_append
        split: option.splits completion_reply.splits download_reply.splits exn.splits)
qed

lemma request_attempt_send_reply:
  "request_attempt (w\<lparr>send_reply := f\<rparr>) p a s = request_attempt w p a s"
  by (cases "get_gigachat_token w s")
    (simp add: request_attempt_def get_token_send_reply Let_def
      split: option.splits completion_reply.splits exn.splits)

lemma image_attempt_send_reply:
  "image_attempt (w\<lparr>send_reply := f\<rparr>) p a s = image_attempt w p a s"
  by (cases "get_gigachat_token w s")
    (simp add: image_attempt_def get_token_send_reply Let_def
      split: option.splits completion_reply.splits download_reply.splits exn.splits)

lemma request_loop_trace:
  "length (filter is_fetch (fst (snd (request_loop w p a k s)))) \<le> k \<and>
   length (filter is_post (fst (snd (request_loop w p a k s)))) \<le> k \<and>
   posts_follow_fetch prev (fst (snd (request_loop w p a k s))) \<and>
   (fst (request_loop w p a k s) = None \<longrightarrow>
      length (filter is_fetch (fst (snd (request_loop w p a k s)))) = k) \<and>
   filter is_send (fst (snd (request_loop w p a k s))) = [] \<and>
   filter is_sleep (fst (snd (request_loop w p a k s))) = [] \<and>
   filter is_download (fst (snd (request_loop w p a k s))) = [] \<and>
   filter is_image_post (fst (snd (request_loop w p a k s))) = [] \<and>
   n_send (snd (snd (request_loop w p a k s))) = n_send s"
proof (induction k arbitrary: a s prev)
  case 0
  show ?case by simp
next
  case (Suc k)
  obtain r es s1 where at: "request_attempt w p a s = (r, es, s1)"
    by (cases "request_attempt w p a s")
  note t = request_attempt_trace [of w p a s prev, unfolded at, simplified]
  show ?case
  proof (cases r)
    case (Some c)
    with at t show ?thesis by simp
  next
    case None
    obtain r' es' s2 where lp: "request_loop w p (Suc a) k s1 = (r', es', s2)"
      by (cases "request_loop w p (Suc a) k s1")
    note ih = Suc.IH [of "Suc a" s1 "if es = [] then prev else Some (last es)",
        unfolded lp, simplified]
    from at None lp t ih show ?thesis
      by (simp add: posts_follow_fetch_append)
  qed
qed

lemma image_loop_trace:
  "length (filter is_fetch (fst (snd (image_loop w p a k s)))) \<le> k \<and>
   length (filter is_post (fst (snd (image_loop w p a k s)))) \<le> k \<and>
   posts_follow_fetch prev (fst (snd (image_loop w p a k s))) \<and>
   (fst (image_loop w p a k s) = None \<longrightarrow>
      length (filter is_fetch (fst (snd (image_loop w p a k s)))) = k) \<and>
   filter is_send (fst (snd (image_loop w p a k s))) = [] \<and>
   filter is_sleep (fst (snd (image_loop w p a k s))) = [] \<and>
   n_send (snd (snd (image_loop w p a k s))) = n_send s"
proof (induction k arbitrary: a s prev)
  case 0
  show ?case by simp
next
  case (Suc k)
  obtain r es s1 where at: "image_attempt w p a s = (r, es, s1)"
    by (cases "image_attempt w p a s")
  note t = image_attempt_trace [of w p a s prev, unfolded at, simplified]
  show ?case
  proof (cases r)
    case (Some c)
    with at t show ?thesis by simp
  next
    case None
    obtain r' es' s2 where lp: "image_loop w p (Suc a) k s1 = (r', es', s2)"
      by (cases "image_loop w p (Suc a) k s1")
    note ih = Suc.IH [of "Suc a" s1 "if es = [] then prev else Some (last es)",
        unfolded lp, simplified]
    from at None lp t ih show ?thesis
      by (simp add: posts_follow_fetch_append)
  qed
qed

lemma request_attempt_fails:
  "\<not> truthy (fst (get_gigachat_token w s)) \<or>
   completion_fails (completion_reply w (n_completion (snd (snd (get_gigachat_token w s))))) \<Longrightarrow>
   fst (request_attempt w p a s) = None"
  by (cases "get_gigachat_token w s")
    (auto simp: request_attempt_def truthy_def completion_fails_def Let_def
      split: option.splits completion_reply.splits exn.splits)

lemma image_attempt_fails:
  "\<not> truthy (fst (get_gigachat_token w s)) \<or>
   completion_fails (completion_reply w (n_completion (snd (snd (get_gigachat_token w s))))) \<Longrightarrow>
   fst (image_attempt w p a s) = None"
  by (cases "get_gigachat_token w s")
    (auto simp: image_attempt_def truthy_def completion_fails_def Let_def
      split: option.splits completion_reply.splits exn.splits)

lemma request_loop_all_fail:
  "(\<And>j. completion_fails (completion_reply w j)) \<Longrightarrow> fst (request_loop w p a k s) = None"
proof (induction k arbitrary: a s)
  case 0
  show ?case by simp
next
  case (Suc k)
  obtain r es s1 where at: "request_attempt w p a s = (r, es, s1)"
    by (cases "request_attempt w p a s")
  have "fst (request_attempt w p a s) = None"
    by (rule request_attempt_fails) (simp add: Suc.prems)
  with at have r: "r = None" by simp
  obtain r' es' s2 where lp: "request_loop w p (Suc a) k s1 = (r', es', s2)"
    by (cases "request_loop w p (Suc a) k s1")
  from Suc.IH [OF Suc.prems, of "Suc a" s1] lp have "r' = None" by simp
  with at r lp show ?case by simp
qed

lemma image_loop_all_fail:
  "(\<And>j. completion_fails (completion_reply w j)) \<Longrightarrow> fst (image_loop w p a k s) = None"
proof (induction k arbitrary: a s)
  case 0
  show ?case by simp
next
  case (Suc k)
  obtain r es s1 where at: "image_attempt w p a s = (r, es, s1)"
    by (cases "image_attempt w p a s")
  have "fst (image_attempt w p a s) = None"
    by (rule image_attempt_fails) (simp add: Suc.prems)
  with at have r: "r = None" by simp
  obtain r' es' s2 where lp: "image_loop w p (Suc a) k s1 = (r', es', s2)"
    by (cases "image_loop w p (Suc a) k s1")
  from Suc.IH [OF Suc.prems, of "Suc a" s1] lp have "r' = None" by simp
  with at r lp show ?case by simp
qed

section \<open>The retry policy\<close>

text \<open>
  C4.  A completion operation, for text or for an image, makes at most \<open>max_retries\<close>
  attempts (2 by default).  Every attempt begins with a call of \<open>get_gigachat_token\<close>
  and posts with the token that call returned.  An attempt fails when no token is to be
  had and when the completion answers with an exception, a status other than 200 or an
  unreadable body.  \<open>None\<close> is returned only after all attempts are used, and it is what
  a run returns in which every attempt fails.
\<close>

theorem retry_budget:
  "length (filter is_fetch (fst (snd (gigachat_request w p n s)))) \<le> n \<and>
   length (filter is_post (fst (snd (gigachat_request w p n s)))) \<le> n \<and>
   posts_follow_fetch None (fst (snd (gigachat_request w p n s))) \<and>
   (fst (gigachat_request w p n s) = None \<longrightarrow>
      length (filter is_fetch (fst (snd (gigachat_request w p n s)))) = n) \<and>
   length (filter is_fetch (fst (snd (gigachat_generate_image w p n s)))) \<le> n \<and>
   length (filter is_post (fst (snd (gigachat_generate_image w p n s)))) \<le> n \<and>
   posts_follow_fetch None (fst (snd (gigachat_generate_image w p n s))) \<and>
   (fst (gigachat_generate_image w p n s) = None \<longrightarrow>
      length (filter is_fetch (fst (snd (gigachat_generate_image w p n s)))) = n) \<and>
   length (filter is_fetch (fst (snd (generate_greeting w nm s)))) \<le> 2 \<and>
   length (filter is_fetch (fst (snd (generate_birthday_card w nm g s)))) \<le> 2 \<and>
   (\<not> truthy (fst (get_gigachat_token w1 s1)) \<longrightarrow>
      fst (request_attempt w1 p a s1) = None \<and> fst (image_attempt w1 p a s1) = None) \<and>
   (completion_fails (completion_reply w2 (n_completion (snd (snd (get_gigachat_token w2 s2))))) \<longrightarrow>
      fst (request_attempt w2 p a s2) = None \<and> fst (image_attempt w2 p a s2) = None) \<and>
   ((\<forall>j. completion_fails (completion_reply w2 j)) \<longrightarrow>
      fst (gigachat_request w2 p n s2) = None \<and> fst (gigachat_generate_image w2 p n s2) = None)"
proof -
  note r = request_loop_trace [of w p 0 n s None]
  note i = image_loop_trace [of w p 0 n s None]
  have d1: "length (filter is_fetch (fst (snd (generate_greeting w nm s)))) \<le> 2"
    using request_loop_trace [of w "GreetingPrompt nm" 0 2 s None]
    by (simp add: generate_greeting_def gigachat_request_def default_max_retries_def)
  have d2: "length (filter is_fetch (fst (snd (generate_birthday_card w nm g s)))) \<le> 2"
    using image_loop_trace [of w "CardPrompt (if g = ''f'' then Feminine else Masculine) nm" 0 2 s None]
    by (simp add: generate_birthday_card_def gigachat_generate_image_def default_max_retries_def)
  have a1: "fst (request_attempt w1 p a s1) = None \<and> fst (image_attempt w1 p a s1) = None"
    if "\<not> truthy (fst (get_gigachat_token w1 s1))"
    using that by (simp add: request_attempt_fails image_attempt_fails)
  have a2: "fst (request_attempt w2 p a s2) = None \<and> fst (image_attempt w2 p a s2) = None"
    if "completion_fails (completion_reply w2 (n_completion (snd (snd (get_gigachat_token w2 s2)))))"
    using that by (simp add: request_attempt_fails image_attempt_fails)
  have a3: "fst (gigachat_request w2 p n s2) = None \<and> fst (gigachat_generate_image w2 p n s2) = None"
    if "\<forall>j. completion_fails (completion_reply w2 j)"
    using that
    by (simp add: gigachat_request_def gigachat_generate_image_def request_loop_all_fail
        image_loop_all_fail)
  from r i d1 d2 a1 a2 a3 show ?thesis
    by (simp add: gigachat_request_def gigachat_generate_image_def)
qed

lemmas token_defs = get_gigachat_token_def cache_valid_def oauth_refresh_def datetime_now_def
  truthy_def truthy_num_def

lemmas world_defs = demo_world_def demo_clock_def init_state_def timeout_world_def
  no_auth_world_def quiet_world_def

theorem retry_budget_witness:
  "fst (gigachat_request timeout_world (GreetingPrompt (name anna)) 2 init_state) = None \<and>
   length (filter is_fetch
     (fst (snd (gigachat_request timeout_world (GreetingPrompt (name anna)) 2 init_state)))) = 2 \<and>
   fst (gigachat_generate_image timeout_world (GreetingPrompt (name anna)) 2 init_state) = None \<and>
   length (filter is_fetch
     (fst (snd (gigachat_generate_image timeout_world (GreetingPrompt (name anna)) 2 init_state)))) = 2 \<and>
   \<not> truthy (fst (get_gigachat_token no_auth_world init_state)) \<and>
   fst (request_attempt no_auth_world (GreetingPrompt (name anna)) 0 init_state) = None \<and>
   fst (image_attempt timeout_world (GreetingPrompt (name anna)) 0 init_state) = None"
proof -
  have h1: "\<not> truthy (fst (get_gigachat_token no_auth_world init_state))"
    by (simp add: token_defs world_defs)
  have h2: "\<forall>j. completion_fails (completion_reply timeout_world j)"
    by (simp add: completion_fails_def world_defs)
  then have h3: "completion_fails (completion_reply timeout_world
      (n_completion (snd (snd (get_gigachat_token timeout_world init_state)))))"
    by blast
  from retry_budget [of timeout_world "GreetingPrompt (name anna)" 2 init_state "name anna" "''f''"
      no_auth_world init_state 0 timeout_world init_state] h1 h2 h3
  show ?thesis by simp
qed

section \<open>Gender detection\<close>

text \<open>
  C2.  \<open>detect_gender\<close> returns \<open>'m'\<close> or \<open>'f'\<close> and nothing else.  It is \<open>'m'\<close> exactly
  when the request returned a non-empty answer whose stripped, upper-cased form holds
  the male marker, whether or not the female marker is there too; in every other case,
  a failed request among them, it is \<open>'f'\<close>.  It causes what the one request causes.
\<close>

theorem detect_gender_default:
  "fst (detect_gender w nm s) \<in> {''m'', ''f''} \<and>
   fst (detect_gender w nm s) =
     (if truthy (fst (gigachat_request w (GenderPrompt nm) default_max_retries s)) \<and>
         1052 \<in> set (str_upper w (py_strip
           (the (fst (gigachat_request w (GenderPrompt nm) default_max_retries s)))))
      then ''m'' else ''f'') \<and>
   snd (detect_gender w nm s) = snd (gigachat_request w (GenderPrompt nm) default_max_retries s)"
  by (cases "gigachat_request w (GenderPrompt nm) default_max_retries s")
    (simp add: detect_gender_def truthy_def male_marker_def female_marker_def py_in_single Let_def
      split: option.splits)

lemma detect_gender_examples:
  "fst (detect_gender (answer_world [32, 1084, 10]) nm init_state) = ''m''"
  "fst (detect_gender (answer_world [1078]) nm init_state) = ''f''"
  "fst (detect_gender (answer_world [1046, 32, 1052]) nm init_state) = ''m''"
  "fst (detect_gender (answer_world [63]) nm init_state) = ''f''"
  "fst (detect_gender timeout_world nm init_state) = ''f''"
  by (simp_all add: detect_gender_def gigachat_request_def request_attempt_def token_defs
      world_defs answer_world_def default_max_retries_def numeral_2_eq_2 Let_def
      male_marker_def female_marker_def py_in_single py_strip_def py_isspace_def demo_upper_def)

section \<open>Generators leave the transport alone\<close>

lemma request_loop_send_reply:
  "request_loop (w\<lparr>send_reply := f\<rparr>) p a k s = request_loop w p a k s"
  by (induction k arbitrary: a s) (simp_all add: request_attempt_send_reply split: prod.splits option.splits)

lemma image_loop_send_reply:
  "image_loop (w\<lparr>send_reply := f\<rparr>) p a k s = image_loop w p a k s"
  by (induction k arbitrary: a s) (simp_all add: image_attempt_send_reply split: prod.splits option.splits)

lemma detect_gender_send_reply:
  "detect_gender (w\<lparr>send_reply := f\<rparr>) nm s = detect_gender w nm s"
  by (simp add: detect_gender_def gigachat_request_def request_loop_send_reply Let_def
      split: prod.splits option.splits)

lemma generate_greeting_send_reply:
  "generate_greeting (w\<lparr>send_reply := f\<rparr>) nm s = generate_greeting w nm s"
  by (simp add: generate_greeting_def gigachat_request_def request_loop_send_reply)

lemma generate_card_send_reply:
  "generate_birthday_card (w\<lparr>send_reply := f\<rparr>) nm g s = generate_birthday_card w nm g s"
  by (simp add: generate_birthday_card_def gigachat_generate_image_def image_loop_send_reply)

lemma detect_gender_trace:
  "filter is_send (fst (snd (detect_gender w nm s))) = [] \<and>
   filter is_sleep (fst (snd (detect_gender w nm s))) = [] \<and>
   filter is_download (fst (snd (detect_gender w nm s))) = [] \<and>
   filter is_image_post (fst (snd (detect_gender w nm s))) = [] \<and>
   n_send (snd (snd (detect_gender w nm s))) = n_send s"
  using request_loop_trace [of w "GenderPrompt nm" 0 default_max_retries s None]
  by (cases "request_loop w (GenderPrompt nm) 0 default_max_retries s")
    (simp add: detect_gender_def gigachat_request_def Let_def split: option.splits)

lemma generate_greeting_trace:
  "filter is_send (fst (snd (generate_greeting w nm s))) = [] \<and>
   filter is_sleep (fst (snd (generate_greeting w nm s))) = [] \<and>
   filter is_download (fst (snd (generate_greeting w nm s))) = [] \<and>
   filter is_image_post (fst (snd (generate_greeting w nm s))) = [] \<and>
   n_send (snd (snd (generate_greeting w nm s))) = n_send s"
  using request_loop_trace [of w "GreetingPrompt nm" 0 default_max_retries s None]
  by (simp add: generate_greeting_def gigachat_request_def)

lemma generate_card_trace:
  "filter is_send (fst (snd (generate_birthday_card w nm g s))) = [] \<and>
   filter is_sleep (fst (snd (generate_birthday_card w nm g s))) = [] \<and>
   n_send (snd (snd (generate_birthday_card w nm g s))) = n_send s"
  using image_loop_trace [of w "CardPrompt (if g = ''f'' then Feminine else Masculine) nm" 0
      default_max_retries s None]
  by (simp add: generate_birthday_card_def gigachat_generate_image_def)

section \<open>Replaying a run against a failing transport\<close>

lemma with_failures_append:
  "with_failures f k (xs @ ys) = with_failures f k xs @ with_failures f (k + send_count xs) ys"
  by (induction xs arbitrary: k) (simp_all add: send_count_def)

lemma with_failures_quiet: "filter is_send xs = [] \<Longrightarrow> with_failures f k xs = xs"
  by (induction xs arbitrary: k) (auto split: if_splits)

lemma send_count_append: "send_count (xs @ ys) = send_count xs + send_count ys"
  by (simp add: send_count_def)

lemma send_count_quiet: "filter is_send xs = [] \<Longrightarrow> send_count xs = 0"
  by (simp add: send_count_def)

lemma replayed_quiet:
  assumes "r = r0" "filter is_send (fst (snd r0)) = []" "n_send (snd (snd r0)) = n_send s"
  shows "replayed w s r r0"
  using assms by (cases r0) (simp add: replayed_def replay_def with_failures_quiet send_count_quiet)

lemma replayed_seq:
  assumes "replayed w s (a, es, s1) (a, es0, s1)"
    and "replayed w s1 (b, es', s2) (b, es0', s2)"
  shows "replayed w s (c, es @ es', s2) (c, es0 @ es0', s2)"
  using assms by (simp add: replayed_def replay_def with_failures_append send_count_append)

lemma replayedD:
  assumes "replayed w s r (a, es0, s1)"
  shows "r = (a, with_failures (send_reply w) (n_send s) es0, s1)"
    and "replayed w s (a, with_failures (send_reply w) (n_send s) es0, s1) (a, es0, s1)"
  using assms by (simp_all add: replayed_def replay_def)

lemma calm_simps:
  "send_reply (calm w) = (\<lambda>k. None)" "sessions (calm w) = sessions w"
  "load_birthdays (calm w) = load_birthdays w" "clock (calm w) = clock w"
  by (simp_all add: calm_def)

lemma calm_generators:
  "detect_gender (calm w) nm s = detect_gender w nm s"
  "generate_greeting (calm w) nm s = generate_greeting w nm s"
  "generate_birthday_card (calm w) nm g s = generate_birthday_card w nm g s"
  by (simp_all add: calm_def detect_gender_send_reply generate_greeting_send_reply
      generate_card_send_reply)

lemma try_send_message_replayed:
  "lg = send_error_log (SendMessage c m) \<Longrightarrow>
   replayed w s (try_send_message w c m lg s) (try_send_message (calm w) c m lg s)"
  by (simp add: replayed_def replay_def try_send_message_def bot_send_message_def calm_simps
      send_count_def is_send_def split: option.splits)

lemma pause_before_replayed: "replayed w s (pause_before i s) (pause_before i s)"
  by (rule replayed_quiet) (simp_all add: pause_before_def is_send_def)

lemma try_card_replayed:
  "replayed w s (try_card w c nm g i s) (try_card (calm w) c nm g i s)"
proof (cases "generate_birthday_card w nm g s")
  case (fields card_data es1 s1)
  with generate_card_trace [of w nm g s]
  have q: "filter is_send es1 = []" "n_send s1 = n_send s" by simp_all
  show ?thesis
    using q
    by (auto simp: replayed_def replay_def try_card_def calm_generators fields bot_send_photo_def
        calm_simps send_count_def is_send_def send_error_log_def with_failures_append
        with_failures_quiet split: option.splits)
qed

lemma send_cards_replayed:
  "replayed w s (send_cards w c nm g ns s) (send_cards (calm w) c nm g ns s)"
proof (induction ns arbitrary: s)
  case Nil
  show ?case by (simp add: replayed_def replay_def send_count_def)
next
  case (Cons i ns)
  obtain u0 es0 s0 where p: "pause_before i s = (u0, es0, s0)"
    by (cases "pause_before i s")
  obtain u1 es1 s1 where c0: "try_card (calm w) c nm g i s0 = (u1, es1, s1)"
    by (cases "try_card (calm w) c nm g i s0")
  obtain u2 es2 s2 where r0: "send_cards (calm w) c nm g ns s1 = (u2, es2, s2)"
    by (cases "send_cards (calm w) c nm g ns s1")
  note a = pause_before_replayed [of w s i, unfolded p]
  note b = replayedD [OF try_card_replayed [of w s0 c nm g i, unfolded c0]]
  note d = replayedD [OF Cons.IH [of s1, unfolded r0]]
  from replayed_seq [OF replayed_seq [OF a b(2)] d(2), of "()"]
  show ?case
    by (simp add: p c0 r0 b(1) d(1))
qed

lemma greet_birthday_replayed:
  "replayed w s (greet_birthday w c b s) (greet_birthday (calm w) c b s)"
proof -
  obtain g es1 s1 where dg: "detect_gender w (name b) s = (g, es1, s1)"
    by (cases "detect_gender w (name b) s")
  obtain gr es2 s2 where gg: "generate_greeting w (name b) s1 = (gr, es2, s2)"
    by (cases "generate_greeting w (name b) s1")
  have q1: "replayed w s (g, es1, s1) (g, es1, s1)"
    using detect_gender_trace [of w "name b" s] by (intro replayed_quiet) (simp_all add: dg)
  have q2: "replayed w s1 (gr, es2, s2) (gr, es2, s2)"
    using generate_greeting_trace [of w "name b" s1] by (intro replayed_quiet) (simp_all add: gg)
  note q = replayed_seq [OF q1 q2, of gr]
  show ?thesis
  proof (cases "truthy gr")
    case True
    obtain u3 es3 s3 where t0: "try_send_message (calm w) c (BirthdayGreeting (name b) (the gr))
        (LogSendTextError c) s2 = (u3, es3, s3)"
      by (cases "try_send_message (calm w) c (BirthdayGreeting (name b) (the gr))
        (LogSendTextError c) s2")
    obtain u4 es4 s4 where c0: "send_cards (calm w) c (name b) g [0..<2] s3 = (u4, es4, s4)"
      by (cases "send_cards (calm w) c (name b) g [0..<2] s3")
    have lg: "LogSendTextError c = send_error_log (SendMessage c (BirthdayGreeting (name b) (the gr)))"
      by (simp add: send_error_log_def)
    note b3 = replayedD [OF try_send_message_replayed [OF lg, of w s2, unfolded t0]]
    note b4 = replayedD [OF send_cards_replayed [of w s3 c "name b" g "[0..<2]", unfolded c0]]
    from replayed_seq [OF replayed_seq [OF q b3(2)] b4(2), of "()"] True
    show ?thesis
      by (simp add: greet_birthday_def calm_generators dg gg t0 c0 b3(1) b4(1))
  next
    case False
    obtain u3 es3 s3 where t0: "try_send_message (calm w) c (BirthdayFallback (name b))
        (LogSendError c) s2 = (u3, es3, s3)"
      by (cases "try_send_message (calm w) c (BirthdayFallback (name b)) (LogSendError c) s2")
    have lg: "LogSendError c = send_error_log (SendMessage c (BirthdayFallback (name b)))"
      by (simp add: send_error_log_def)
    note b3 = replayedD [OF try_send_message_replayed [OF lg, of w s2, unfolded t0]]
    from replayed_seq [OF q b3(2), of "()"] False
    show ?thesis
      by (simp add: greet_birthday_def calm_generators dg gg t0 b3(1))
  qed
qed

lemma greet_birthdays_replayed:
  "replayed w s (greet_birthdays w c bs s) (greet_birthdays (calm w) c bs s)"
proof (induction bs arbitrary: s)
  case Nil
  show ?case by (simp add: replayed_def replay_def send_count_def)
next
  case (Cons b bs)
  obtain u1 es1 s1 where g0: "greet_birthday (calm w) c b s = (u1, es1, s1)"
    by (cases "greet_birthday (calm w) c b s")
  obtain u2 es2 s2 where r0: "greet_birthdays (calm w) c bs s1 = (u2, es2, s2)"
    by (cases "greet_birthdays (calm w) c bs s1")
  note a = replayedD [OF greet_birthday_replayed [of w s c b, unfolded g0]]
  note d = replayedD [OF Cons.IH [of s1, unfolded r0]]
  from replayed_seq [OF a(2) d(2), of "()"]
  show ?case
    by (simp add: g0 r0 a(1) d(1))
qed

lemma get_birthdays_calm:
  "get_birthdays_today (calm w) bs s = get_birthdays_today w bs s"
  "get_birthdays_this_month (calm w) bs s = get_birthdays_this_month w bs s"
  "datetime_now (calm w) s = datetime_now w s"
  by (simp_all add: get_birthdays_today_def get_birthdays_this_month_def datetime_now_def calm_simps)

lemma get_birthdays_replayed:
  "replayed w s (get_birthdays_today w bs s) (get_birthdays_today w bs s)"
  "replayed w s (get_birthdays_this_month w bs s) (get_birthdays_this_month w bs s)"
  "replayed w s (datetime_now w s) (datetime_now w s)"
  by (rule replayed_quiet;
      simp add: get_birthdays_today_def get_birthdays_this_month_def datetime_now_def is_send_def)+

lemma daily_loop_replayed:
  "replayed w s (daily_loop w ss s) (daily_loop (calm w) ss s)"
proof (induction ss arbitrary: s)
  case Nil
  show ?case by (simp add: replayed_def replay_def send_count_def)
next
  case (Cons x ss)
  obtain c code where x: "x = (c, code)" by (cases x)
  obtain today es1 s1 where t0: "get_birthdays_today w (load_birthdays w code) s = (today, es1, s1)"
    by (cases "get_birthdays_today w (load_birthdays w code) s")
  obtain u2 es2 s2 where g0: "greet_birthdays (calm w) c today s1 = (u2, es2, s2)"
    by (cases "greet_birthdays (calm w) c today s1")
  obtain u3 es3 s3 where r0: "daily_loop (calm w) ss s2 = (u3, es3, s3)"
    by (cases "daily_loop (calm w) ss s2")
  note a = get_birthdays_replayed(1) [of w s "load_birthdays w code", unfolded t0]
  note b = replayedD [OF greet_birthdays_replayed [of w s1 c today, unfolded g0]]
  note d = replayedD [OF Cons.IH [of s2, unfolded r0]]
  from replayed_seq [OF replayed_seq [OF a b(2)] d(2), of "()"]
  show ?case
    by (simp add: x get_birthdays_calm calm_simps t0 g0 r0 b(1) d(1))
qed

lemma monthly_loop_replayed:
  "replayed w s (monthly_loop w m ss s) (monthly_loop (calm w) m ss s)"
proof (induction ss arbitrary: s)
  case Nil
  show ?case by (simp add: replayed_def replay_def send_count_def)
next
  case (Cons x ss)
  obtain c code where x: "x = (c, code)" by (cases x)
  obtain mb es1 s1 where t0: "get_birthdays_this_month w (load_birthdays w code) s = (mb, es1, s1)"
    by (cases "get_birthdays_this_month w (load_birthdays w code) s")
  obtain u2 es2 s2 where g0: "try_send_message (calm w) c (month_text m mb) (LogSendError c) s1 =
      (u2, es2, s2)"
    by (cases "try_send_message (calm w) c (month_text m mb) (LogSendError c) s1")
  obtain u3 es3 s3 where r0: "monthly_loop (calm w) m ss s2 = (u3, es3, s3)"
    by (cases "monthly_loop (calm w) m ss s2")
  have lg: "LogSendError c = send_error_log (SendMessage c (month_text m mb))"
    by (simp add: send_error_log_def month_text_def)
  note a = get_birthdays_replayed(2) [of w s "load_birthdays w code", unfolded t0]
  note b = replayedD [OF try_send_message_replayed [OF lg, of w s1, unfolded g0]]
  note d = replayedD [OF Cons.IH [of s2, unfolded r0]]
  from replayed_seq [OF replayed_seq [OF a b(2)] d(2), of "()"]
  show ?case
    by (simp add: x get_birthdays_calm calm_simps t0 g0 r0 b(1) d(1))
qed

lemma monthly_reminder_replayed:
  "replayed w s (monthly_reminder w s) (monthly_reminder (calm w) s)"
proof -
  obtain now es1 s1 where t0: "datetime_now w s = (now, es1, s1)"
    by (cases "datetime_now w s")
  obtain u2 es2 s2 where r0: "monthly_loop (calm w) (dt_month now) (sessions w) s1 = (u2, es2, s2)"
    by (cases "monthly_loop (calm w) (dt_month now) (sessions w) s1")
  note a = get_birthdays_replayed(3) [of w s, unfolded t0]
  note d = replayedD [OF monthly_loop_replayed [of w s1 "dt_month now" "sessions w", unfolded r0]]
  from replayed_seq [OF a d(2), of "()"]
  show ?thesis
    by (simp add: monthly_reminder_def get_birthdays_calm calm_simps t0 r0 d(1))
qed

section \<open>One subject\<close>

lemma no_send_no_photo: "filter is_send es = [] \<Longrightarrow> filter is_photo es = []"
  by (induction es) (auto simp: is_send_def is_photo_def split: event.splits if_splits)

text \<open>
  C9.  When the greeting text of a subject comes back as \<open>None\<close>, the dispatcher does
  gender detection and the greeting request, hands the transport exactly one message,
  the canned fallback, and nothing else: no photo, no image request, no file download
  and no pause.
\<close>

theorem fallback_only:
  assumes "fst (generate_greeting w (name b) (snd (snd (detect_gender w (name b) s)))) = None"
  shows "fst (snd (greet_birthday w c b s)) =
           fst (snd (detect_gender w (name b) s)) @
           fst (snd (generate_greeting w (name b) (snd (snd (detect_gender w (name b) s))))) @
           [SendMessage c (BirthdayFallback (name b))] @
           (if send_reply w (n_send s) = None then [] else [Print (LogSendError c)]) \<and>
         filter is_send (fst (snd (greet_birthday w c b s))) =
           [SendMessage c (BirthdayFallback (name b))] \<and>
         filter is_photo (fst (snd (greet_birthday w c b s))) = [] \<and>
         filter is_image_post (fst (snd (greet_birthday w c b s))) = [] \<and>
         filter is_download (fst (snd (greet_birthday w c b s))) = [] \<and>
         filter is_sleep (fst (snd (greet_birthday w c b s))) = []"
proof -
  obtain g es1 s1 where dg: "detect_gender w (name b) s = (g, es1, s1)"
    by (cases "detect_gender w (name b) s")
  obtain gr es2 s2 where gg: "generate_greeting w (name b) s1 = (gr, es2, s2)"
    by (cases "generate_greeting w (name b) s1")
  from assms dg gg have none: "gr = None" by simp
  note t1 = detect_gender_trace [of w "name b" s, unfolded dg, simplified]
  note t2 = generate_greeting_trace [of w "name b" s1, unfolded gg, simplified]
  have n: "n_send s2 = n_send s" using t1 t2 by simp
  have ev: "fst (snd (greet_birthday w c b s)) =
      es1 @ es2 @ [SendMessage c (BirthdayFallback (name b))] @
      (if send_reply w (n_send s) = None then [] else [Print (LogSendError c)])"
    by (simp add: greet_birthday_def dg gg none truthy_def try_send_message_def
        bot_send_message_def n split: option.splits)
  from t1 t2 show ?thesis
    by (simp add: ev dg gg no_send_no_photo trace_defs)
qed

theorem fallback_only_witness:
  "fst (generate_greeting timeout_world (name anna)
     (snd (snd (detect_gender timeout_world (name anna) init_state)))) = None \<and>
   filter is_send (fst (snd (greet_birthday timeout_world 101 anna init_state))) =
     [SendMessage 101 (BirthdayFallback (name anna))] \<and>
   filter is_image_post (fst (snd (greet_birthday timeout_world 101 anna init_state))) = []"
proof -
  have h: "fst (generate_greeting timeout_world (name anna)
     (snd (snd (detect_gender timeout_world (name anna) init_state)))) = None"
    by (simp add: generate_greeting_def gigachat_request_def request_loop_all_fail
        completion_fails_def world_defs)
  from fallback_only [OF h, of 101] h show ?thesis by blast
qed

lemma try_card_run:
  "try_card w c nm g i s =
     (case generate_birthday_card w nm g s of (card_data, es, s1) \<Rightarrow>
        ((), es @ photo_attempt w c nm (i + 1) card_data (n_send s1), after_photo card_data s1))"
  by (simp add: try_card_def photo_attempt_def after_photo_def truthy_def bot_send_photo_def
      split: prod.splits option.splits)

lemma send_cards_two:
  "send_cards w c nm g [0..<2] s =
     (case try_card w c nm g 0 s of (u, e1, t1) \<Rightarrow>
      case try_card w c nm g 1 t1 of (u', e2, t2) \<Rightarrow>
        ((), e1 @ [Print (LogPause IMAGE_DELAY 2), Sleep IMAGE_DELAY] @ e2, t2))"
proof -
  have "[0..<2] = [0, Suc 0]" by (simp add: upt_rec numeral_2_eq_2)
  then show ?thesis
    by (simp add: pause_before_def split: prod.splits)
qed

lemma photo_attempt_no_sleep [simp]: "filter is_sleep (photo_attempt w c nm i d k) = []"
  by (simp add: photo_attempt_def is_sleep_def split: option.splits)

text \<open>
  C10.  When the greeting text is there and the transport raises on it, the error is
  caught for that one message: the handler prints, and the dispatcher goes on to
  generate the first card, hand it to the transport if it is there, pause, generate the
  second card and hand that one over if it is there.
\<close>

theorem cards_after_failed_text:
  assumes "truthy (fst (generate_greeting w (name b) (snd (snd (detect_gender w (name b) s)))))"
    and "send_reply w (n_send s) \<noteq> None"
  shows "(case detect_gender w (name b) s of (g, es1, s1) \<Rightarrow>
          case generate_greeting w (name b) s1 of (gr, es2, s2) \<Rightarrow>
          case generate_birthday_card w (name b) g (s2\<lparr>n_send := Suc (n_send s2)\<rparr>) of
            (c1, ec1, t1) \<Rightarrow>
          case generate_birthday_card w (name b) g (after_photo c1 t1) of (c2, ec2, t2) \<Rightarrow>
            greet_birthday w c b s =
              ((),
               es1 @ es2 @
               [SendMessage c (BirthdayGreeting (name b) (the gr)), Print (LogSendTextError c)] @
               ec1 @ photo_attempt w c (name b) 1 c1 (n_send t1) @
               [Print (LogPause IMAGE_DELAY 2), Sleep IMAGE_DELAY] @
               ec2 @ photo_attempt w c (name b) 2 c2 (n_send t2),
               after_photo c2 t2))"
proof -
  obtain g es1 s1 where dg: "detect_gender w (name b) s = (g, es1, s1)"
    by (cases "detect_gender w (name b) s")
  obtain gr es2 s2 where gg: "generate_greeting w (name b) s1 = (gr, es2, s2)"
    by (cases "generate_greeting w (name b) s1")
  from assms(1) dg gg have tr: "truthy gr" by simp
  note t1 = detect_gender_trace [of w "name b" s, unfolded dg, simplified]
  note t2 = generate_greeting_trace [of w "name b" s1, unfolded gg, simplified]
  have n: "n_send s2 = n_send s" using t1 t2 by simp
  with assms(2) obtain e where fail: "send_reply w (n_send s2) = Some e" by auto
  show ?thesis
    by (simp add: greet_birthday_def dg gg tr try_send_message_def bot_send_message_def fail
        send_cards_two try_card_run numeral_2_eq_2 [symmetric] split: prod.splits)
qed


lemmas run_defs = detect_gender_def generate_greeting_def generate_birthday_card_def
  gigachat_request_def gigachat_generate_image_def request_attempt_def image_attempt_def
  default_max_retries_def extract_file_id_def py_in_def py_find_def py_slice_def py_strip_def
  py_isspace_def img_marker_def dquote_def male_marker_def female_marker_def demo_upper_def
  tagged_content_def plain_content_def anna_def oleg_def demo_birthdays_def IMAGE_DELAY_def
  photo_attempt_def after_photo_def text_fail_world_def

theorem cards_after_failed_text_witness:
  "truthy (fst (generate_greeting text_fail_world (name anna)
     (snd (snd (detect_gender text_fail_world (name anna) init_state))))) \<and>
   send_reply text_fail_world (n_send init_state) \<noteq> None \<and>
   filter is_send (fst (snd (greet_birthday text_fail_world 101 anna init_state))) =
     [SendMessage 101 (BirthdayGreeting (name anna) tagged_content),
      SendPhoto 101 [1, 2, 3] 1 (name anna), SendPhoto 101 [1, 2, 3] 2 (name anna)]"
proof -
  have h1: "truthy (fst (generate_greeting text_fail_world (name anna)
     (snd (snd (detect_gender text_fail_world (name anna) init_state)))))"
    by (simp add: run_defs token_defs world_defs numeral_2_eq_2 Let_def)
  have h2: "send_reply text_fail_world (n_send init_state) \<noteq> None"
    by (simp add: text_fail_world_def world_defs)
  from cards_after_failed_text [OF h1 h2, of 101] h1 h2 show ?thesis
    by (simp add: run_defs token_defs world_defs numeral_2_eq_2 Let_def trace_defs)
qed

section \<open>The pipeline\<close>

lemma cards_loop_two:
  "cards_loop w nm g [0..<2] [] s =
     (case generate_birthday_card w nm g s of (c1, e1, t1) \<Rightarrow>
      case generate_birthday_card w nm g t1 of (c2, e2, t2) \<Rightarrow>
        ([c1, c2], e1 @ [Print (LogPause IMAGE_DELAY 2), Sleep IMAGE_DELAY] @ e2, t2))"
proof -
  have "[0..<2] = [0, Suc 0]" by (simp add: upt_rec numeral_2_eq_2)
  then show ?thesis
    by (simp add: pause_before_def numeral_2_eq_2 [symmetric] split: prod.splits)
qed

lemma default_retries_Suc: "default_max_retries = Suc (Suc 0)"
  by (simp add: default_max_retries_def)

lemmas eval_defs = detect_gender_def generate_greeting_def generate_birthday_card_def
  gigachat_request_def gigachat_generate_image_def request_attempt_def image_attempt_def
  default_retries_Suc extract_file_id_def py_in_def py_find_def py_slice_def py_strip_def
  py_isspace_def img_marker_def dquote_def male_marker_def female_marker_def demo_upper_def
  tagged_content_def plain_content_def anna_def oleg_def demo_birthdays_def IMAGE_DELAY_def
  photo_attempt_def after_photo_def Let_def

lemma card_slots_examples:
  "cards (fst (generate_ai_greeting (download_world []) nm init_state)) =
     [Some [1, 2, 3], Some [1, 2, 3]]"
  "cards (fst (generate_ai_greeting (download_world [not_found, not_found]) nm init_state)) =
     [None, Some [1, 2, 3]]"
  "cards (fst (generate_ai_greeting
     (download_world [DownloadResponse 200 [7], not_found, not_found]) nm init_state)) =
     [Some [7], None]"
  "cards (fst (generate_ai_greeting
     (download_world [not_found, not_found, not_found, not_found]) nm init_state)) =
     [None, None]"
  by (simp_all add: generate_ai_greeting_def cards_loop_two eval_defs token_defs world_defs
      download_world_def not_found_def)


text \<open>
  C6.  A run of \<open>generate_ai_greeting\<close> pauses exactly once, for \<open>IMAGE_DELAY = 30\<close>
  seconds: after everything the first card generation does and before anything the
  second does, and not before the first.  Its \<open>cards\<close> always has two slots, the results
  of the two generations in order, and each slot can be there or not whatever the other
  is.  The card loop of the dispatcher pauses in the same place.
\<close>

theorem pipeline_pause_once:
  "(case detect_gender w nm s of (g, es1, s1) \<Rightarrow>
    case generate_greeting w nm s1 of (gr, es2, s2) \<Rightarrow>
    case generate_birthday_card w nm g s2 of (c1, ec1, t1) \<Rightarrow>
    case generate_birthday_card w nm g t1 of (c2, ec2, t2) \<Rightarrow>
      generate_ai_greeting w nm s =
        (\<lparr>greeting = gr, cards = [c1, c2], gender = g\<rparr>,
         es1 @ es2 @ ec1 @ [Print (LogPause IMAGE_DELAY 2), Sleep IMAGE_DELAY] @ ec2, t2) \<and>
      filter is_sleep (es1 @ es2 @ ec1) = [] \<and> filter is_sleep ec2 = []) \<and>
   length (cards (fst (generate_ai_greeting w nm s))) = 2 \<and>
   filter is_sleep (fst (snd (generate_ai_greeting w nm s))) = [Sleep 30] \<and>
   (case try_card w c nm g' 0 s' of (u, e1, t1) \<Rightarrow>
    case try_card w c nm g' 1 t1 of (u', e2, t2) \<Rightarrow>
      send_cards w c nm g' [0..<2] s' =
        ((), e1 @ [Print (LogPause IMAGE_DELAY 2), Sleep IMAGE_DELAY] @ e2, t2) \<and>
      filter is_sleep e1 = [] \<and> filter is_sleep e2 = []) \<and>
   cards (fst (generate_ai_greeting (download_world []) nm init_state)) =
     [Some [1, 2, 3], Some [1, 2, 3]] \<and>
   cards (fst (generate_ai_greeting (download_world [not_found, not_found]) nm init_state)) =
     [None, Some [1, 2, 3]] \<and>
   cards (fst (generate_ai_greeting
     (download_world [DownloadResponse 200 [7], not_found, not_found]) nm init_state)) =
     [Some [7], None] \<and>
   cards (fst (generate_ai_greeting
     (download_world [not_found, not_found, not_found, not_found]) nm init_state)) =
     [None, None]"
proof -
  obtain g es1 s1 where dg: "detect_gender w nm s = (g, es1, s1)"
    by (cases "detect_gender w nm s")
  obtain gr es2 s2 where gg: "generate_greeting w nm s1 = (gr, es2, s2)"
    by (cases "generate_greeting w nm s1")
  obtain c1 ec1 t1 where k1: "generate_birthday_card w nm g s2 = (c1, ec1, t1)"
    by (cases "generate_birthday_card w nm g s2")
  obtain c2 ec2 t2 where k2: "generate_birthday_card w nm g t1 = (c2, ec2, t2)"
    by (cases "generate_birthday_card w nm g t1")
  note q1 = detect_gender_trace [of w nm s, unfolded dg, simplified]
  note q2 = generate_greeting_trace [of w nm s1, unfolded gg, simplified]
  note q3 = generate_card_trace [of w nm g s2, unfolded k1, simplified]
  note q4 = generate_card_trace [of w nm g t1, unfolded k2, simplified]
  have run: "generate_ai_greeting w nm s =
      (\<lparr>greeting = gr, cards = [c1, c2], gender = g\<rparr>,
       es1 @ es2 @ ec1 @ [Print (LogPause IMAGE_DELAY 2), Sleep IMAGE_DELAY] @ ec2, t2)"
    by (simp add: generate_ai_greeting_def dg gg cards_loop_two k1 k2)
  have p1: "case detect_gender w nm s of (g, es1, s1) \<Rightarrow>
    case generate_greeting w nm s1 of (gr, es2, s2) \<Rightarrow>
    case generate_birthday_card w nm g s2 of (c1, ec1, t1) \<Rightarrow>
    case generate_birthday_card w nm g t1 of (c2, ec2, t2) \<Rightarrow>
      generate_ai_greeting w nm s =
        (\<lparr>greeting = gr, cards = [c1, c2], gender = g\<rparr>,
         es1 @ es2 @ ec1 @ [Print (LogPause IMAGE_DELAY 2), Sleep IMAGE_DELAY] @ ec2, t2) \<and>
      filter is_sleep (es1 @ es2 @ ec1) = [] \<and> filter is_sleep ec2 = []"
    using q1 q2 q3 q4 by (simp add: dg gg k1 k2 run)
  have p2: "length (cards (fst (generate_ai_greeting w nm s))) = 2"
    by (simp add: run)
  have p3: "filter is_sleep (fst (snd (generate_ai_greeting w nm s))) = [Sleep 30]"
    using q1 q2 q3 q4 by (simp add: run is_sleep_def IMAGE_DELAY_def)
  have p4: "case try_card w c nm g' 0 s' of (u, e1, t1) \<Rightarrow>
    case try_card w c nm g' 1 t1 of (u', e2, t2) \<Rightarrow>
      send_cards w c nm g' [0..<2] s' =
        ((), e1 @ [Print (LogPause IMAGE_DELAY 2), Sleep IMAGE_DELAY] @ e2, t2) \<and>
      filter is_sleep e1 = [] \<and> filter is_sleep e2 = []"
  proof -
    have "filter is_sleep (fst (snd (try_card w c nm g' i x))) = []" for i x
      using generate_card_trace [of w nm g' x]
      by (cases "generate_birthday_card w nm g' x") (simp add: try_card_run)
    note ns = this
    obtain u e1 x1 where a: "try_card w c nm g' 0 s' = (u, e1, x1)"
      by (cases "try_card w c nm g' 0 s'")
    obtain u' e2 x2 where b: "try_card w c nm g' (Suc 0) x1 = (u', e2, x2)"
      by (cases "try_card w c nm g' (Suc 0) x1")
    from ns [of 0 s'] ns [of "Suc 0" x1] show ?thesis
      by (simp add: send_cards_two a b)
  qed
  from p1 p2 p3 p4 card_slots_examples [of nm] show ?thesis
    by blast
qed

section \<open>Pacing across subjects\<close>

lemmas dispatch_defs = daily_birthday_check_def get_birthdays_today_def
  greet_birthday_def try_send_message_def bot_send_message_def send_cards_two try_card_run

text \<open>
  C7, as the code has it.  Nothing spaces the image requests of one scheduler firing
  apart as a whole: with two subjects due for one recipient, the first card of the
  second subject is requested with no pause after the second card of the first.
\<close>

theorem no_global_pacing_counterexample:
  "\<not> paced (fst (snd (daily_birthday_check quiet_world init_state)))"
  by (simp add: dispatch_defs eval_defs token_defs world_defs paced_def)


lemma try_send_message_trace:
  "filter is_sleep (fst (snd (try_send_message w c m lg s))) = [] \<and>
   filter is_image_post (fst (snd (try_send_message w c m lg s))) = []"
  by (simp add: try_send_message_def bot_send_message_def is_sleep_def is_image_post_def
      split: option.splits)

lemma try_card_no_sleep: "filter is_sleep (fst (snd (try_card w c nm g i s))) = []"
  using generate_card_trace [of w nm g s]
  by (cases "generate_birthday_card w nm g s") (simp add: try_card_run)

text \<open>
  C7, amended.  The pause belongs to one subject: when the greeting text is there, the
  dispatcher sleeps \<open>IMAGE_DELAY = 30\<close> seconds exactly once for that subject, after all
  that the first card does and before all that the second card does, and no image
  request comes before the first card; when the text is missing it does not sleep.
\<close>

theorem pause_within_subject:
  "(case detect_gender w (name b) s of (g, es1, s1) \<Rightarrow>
    case generate_greeting w (name b) s1 of (gr, es2, s2) \<Rightarrow>
      if truthy gr then
        (case try_send_message w c (BirthdayGreeting (name b) (the gr)) (LogSendTextError c) s2 of
           (u, es3, s3) \<Rightarrow>
         case try_card w c (name b) g 0 s3 of (u1, e1, t1) \<Rightarrow>
         case try_card w c (name b) g 1 t1 of (u2, e2, t2) \<Rightarrow>
           fst (snd (greet_birthday w c b s)) =
             es1 @ es2 @ es3 @ e1 @ [Print (LogPause IMAGE_DELAY 2), Sleep IMAGE_DELAY] @ e2 \<and>
           filter is_image_post (es1 @ es2 @ es3) = [] \<and>
           filter is_sleep (es1 @ es2 @ es3 @ e1) = [] \<and>
           filter is_sleep e2 = [] \<and>
           filter is_sleep (fst (snd (greet_birthday w c b s))) = [Sleep 30])
      else filter is_sleep (fst (snd (greet_birthday w c b s))) = [])"
proof -
  obtain g es1 s1 where dg: "detect_gender w (name b) s = (g, es1, s1)"
    by (cases "detect_gender w (name b) s")
  obtain gr es2 s2 where gg: "generate_greeting w (name b) s1 = (gr, es2, s2)"
    by (cases "generate_greeting w (name b) s1")
  note q1 = detect_gender_trace [of w "name b" s, unfolded dg, simplified]
  note q2 = generate_greeting_trace [of w "name b" s1, unfolded gg, simplified]
  show ?thesis
  proof (cases "truthy gr")
    case True
    obtain u es3 s3 where ts: "try_send_message w c (BirthdayGreeting (name b) (the gr))
        (LogSendTextError c) s2 = (u, es3, s3)"
      by (cases "try_send_message w c (BirthdayGreeting (name b) (the gr)) (LogSendTextError c) s2")
    obtain u1 e1 t1 where k1: "try_card w c (name b) g 0 s3 = (u1, e1, t1)"
      by (cases "try_card w c (name b) g 0 s3")
    obtain u2 e2 t2 where k2: "try_card w c (name b) g (Suc 0) t1 = (u2, e2, t2)"
      by (cases "try_card w c (name b) g (Suc 0) t1")
    note q3 = try_send_message_trace [of w c "BirthdayGreeting (name b) (the gr)"
        "LogSendTextError c" s2, unfolded ts, simplified]
    note q4 = try_card_no_sleep [of w c "name b" g 0 s3, unfolded k1, simplified]
    note q5 = try_card_no_sleep [of w c "name b" g "Suc 0" t1, unfolded k2, simplified]
    have ev: "fst (snd (greet_birthday w c b s)) =
        es1 @ es2 @ es3 @ e1 @ [Print (LogPause IMAGE_DELAY 2), Sleep IMAGE_DELAY] @ e2"
      using True by (simp add: greet_birthday_def dg gg ts send_cards_two k1 k2)
    from q1 q2 q3 q4 q5 True show ?thesis
      by (simp add: dg gg ts k1 k2 ev is_sleep_def IMAGE_DELAY_def)
  next
    case False
    obtain u es3 s3 where ts: "try_send_message w c (BirthdayFallback (name b))
        (LogSendError c) s2 = (u, es3, s3)"
      by (cases "try_send_message w c (BirthdayFallback (name b)) (LogSendError c) s2")
    note q3 = try_send_message_trace [of w c "BirthdayFallback (name b)" "LogSendError c" s2,
        unfolded ts, simplified]
    from q1 q2 q3 False show ?thesis
      by (simp add: greet_birthday_def dg gg ts)
  qed
qed

section \<open>Reading the image tag\<close>

lemma find_at_quote:
  "q \<in> set ys \<Longrightarrow> find_at [q] ys k = int (k + length (takeWhile (\<lambda>c. c \<noteq> q) ys))"
  by (induction ys arbitrary: k) auto

lemma extract_file_id_quote:
  assumes "py_find content img_marker 0 = int i" and "34 \<in> set (drop (i + 10) content)"
  shows "extract_file_id content = takeWhile (\<lambda>c. c \<noteq> 34) (drop (i + 10) content)"
proof -
  let ?ys = "drop (i + 10) content"
  let ?n = "length (takeWhile (\<lambda>c. c \<noteq> 34) ?ys)"
  from assms(2) have len: "i + 10 < length content"
    by (cases "i + 10 < length content") auto
  have q: "py_find content dquote (i + 10) = int (i + 10 + ?n)"
    using len assms(2) by (simp add: py_find_def dquote_def find_at_quote)
  have "?n \<le> length ?ys" by (rule length_takeWhile_le)
  then have b: "i + 10 + ?n \<le> length content" using len by simp
  have ar: "nat (int i + 10 + int ?n) - (i + 10) = ?n"
    by arith
  have "extract_file_id content = take ?n ?ys"
    using b by (simp add: extract_file_id_def assms(1) q py_slice_def Let_def min_def ar)
  also have "\<dots> = takeWhile (\<lambda>c. c \<noteq> 34) ?ys"
    by (simp add: takeWhile_eq_take [symmetric])
  finally show ?thesis .
qed

lemma extract_file_id_example: "extract_file_id tagged_content = [97, 98]"
  by (simp add: eval_defs)

lemma get_token_counters:
  "n_completion (snd (snd (get_gigachat_token w s))) = n_completion s \<and>
   n_download (snd (snd (get_gigachat_token w s))) = n_download s"
  by (simp add: get_gigachat_token_def cache_valid_cases oauth_refresh_def Let_def
      split: prod.splits oauth_reply.splits option.splits if_splits)

lemma image_attempt_counters:
  "n_completion s \<le> n_completion (snd (snd (image_attempt w p a s))) \<and>
   n_download s \<le> n_download (snd (snd (image_attempt w p a s)))"
  using get_token_counters [of w s]
  by (cases "get_gigachat_token w s")
    (simp add: image_attempt_def Let_def
      split: option.splits completion_reply.splits download_reply.splits exn.splits)

lemma image_attempt_some:
  assumes "fst (image_attempt w p a s) = Some data"
  shows "\<exists>content t.
      completion_reply w (n_completion s) = CompletionResponse 200 (Some content) \<and>
      py_in img_marker content \<and>
      FileGet (extract_file_id content) t \<in> set (fst (snd (image_attempt w p a s))) \<and>
      download_reply w (n_download s) = DownloadResponse 200 data"
  using assms get_token_counters [of w s]
  by (cases "get_gigachat_token w s")
    (auto simp: image_attempt_def Let_def
      split: option.splits completion_reply.splits download_reply.splits exn.splits if_splits)

lemma image_loop_some:
  "fst (image_loop w p a k s) = Some data \<Longrightarrow>
   \<exists>j i content t.
      n_completion s \<le> j \<and> completion_reply w j = CompletionResponse 200 (Some content) \<and>
      py_in img_marker content \<and>
      FileGet (extract_file_id content) t \<in> set (fst (snd (image_loop w p a k s))) \<and>
      n_download s \<le> i \<and> download_reply w i = DownloadResponse 200 data"
proof (induction k arbitrary: a s)
  case 0
  then show ?case by simp
next
  case (Suc k)
  obtain r es s1 where at: "image_attempt w p a s = (r, es, s1)"
    by (cases "image_attempt w p a s")
  show ?case
  proof (cases r)
    case (Some d)
    with Suc.prems at have "fst (image_attempt w p a s) = Some data" by simp
    from image_attempt_some [OF this] at Some show ?thesis
      by auto
  next
    case None
    obtain r' es' s2 where lp: "image_loop w p (Suc a) k s1 = (r', es', s2)"
      by (cases "image_loop w p (Suc a) k s1")
    with Suc.prems at None have "fst (image_loop w p (Suc a) k s1) = Some data" by simp
    from Suc.IH [OF this] obtain j i content t where
      f: "n_completion s1 \<le> j" "completion_reply w j = CompletionResponse 200 (Some content)"
        "py_in img_marker content" "FileGet (extract_file_id content) t \<in> set es'"
        "n_download s1 \<le> i" "download_reply w i = DownloadResponse 200 data"
      using lp by auto
    from image_attempt_counters [of s w p a] at
    have "n_completion s \<le> n_completion s1" "n_download s \<le> n_download s1" by simp_all
    with f have "n_completion s \<le> j" "n_download s \<le> i" by simp_all
    with f at None lp show ?thesis
      by (simp, blast)
  qed
qed

text \<open>
  C5, as the code has it.  A content without the image tag does not end the operation
  with \<open>None\<close>, and neither does a refused download: the loop goes on to its next
  attempt, and that attempt may return the image.
\<close>

theorem tag_absent_counterexample:
  "completion_reply tag_late_world 0 = CompletionResponse 200 (Some plain_content) \<and>
   \<not> py_in img_marker plain_content \<and>
   fst (generate_birthday_card tag_late_world (name anna) ''f'' init_state) = Some [1, 2, 3] \<and>
   download_reply download_late_world 0 = DownloadResponse 404 [] \<and>
   fst (generate_birthday_card download_late_world (name anna) ''f'' init_state) = Some [1, 2, 3]"
  by (simp add: eval_defs token_defs world_defs tag_late_world_def download_late_world_def
      download_world_def not_found_def)

text \<open>
  C5, amended.  In an attempt that has a token and a 200 completion with a content, a
  content without the tag \<open><img src="\<close> makes no download and no result, and the loop
  continues; a content with the tag makes one download, of the file named between the
  tag and the next double quote, and the attempt returns the bytes exactly when that
  download answers 200.  The operation returns bytes only if some attempt of it found a
  tag and its download answered 200 with these bytes.
\<close>

theorem card_from_tag:
  "(get_gigachat_token w s = (Some t, es, s1) \<and> t \<noteq> [] \<and>
    completion_reply w (n_completion s1) = CompletionResponse 200 (Some content) \<and>
    \<not> py_in img_marker content \<longrightarrow>
      fst (image_attempt w p a s) = None \<and>
      filter is_download (fst (snd (image_attempt w p a s))) = []) \<and>
   (get_gigachat_token w' s' = (Some t', es', s1') \<and> t' \<noteq> [] \<and>
    completion_reply w' (n_completion s1') = CompletionResponse 200 (Some content') \<and>
    py_in img_marker content' \<longrightarrow>
      filter is_download (fst (snd (image_attempt w' p a s'))) =
        [FileGet (extract_file_id content') t'] \<and>
      fst (image_attempt w' p a s') =
        (case download_reply w' (n_download s1') of
           DownloadRaise e \<Rightarrow> None
         | DownloadResponse status data \<Rightarrow> if status = 200 then Some data else None)) \<and>
   (py_find content' img_marker 0 = int i \<and> 34 \<in> set (drop (i + 10) content') \<longrightarrow>
      extract_file_id content' = takeWhile (\<lambda>c. c \<noteq> 34) (drop (i + 10) content')) \<and>
   (fst (gigachat_generate_image w' p n s') = Some bytes \<longrightarrow>
      (\<exists>j k c tok.
         n_completion s' \<le> j \<and> completion_reply w' j = CompletionResponse 200 (Some c) \<and>
         py_in img_marker c \<and>
         FileGet (extract_file_id c) tok \<in> set (fst (snd (gigachat_generate_image w' p n s'))) \<and>
         n_download s' \<le> k \<and> download_reply w' k = DownloadResponse 200 bytes))"
proof -
  have p1: "fst (image_attempt w p a s) = None \<and>
      filter is_download (fst (snd (image_attempt w p a s))) = []"
    if h: "get_gigachat_token w s = (Some t, es, s1) \<and> t \<noteq> [] \<and>
      completion_reply w (n_completion s1) = CompletionResponse 200 (Some content) \<and>
      \<not> py_in img_marker content"
    using h get_token_facts(5) [of w s "Some t" es s1]
    by (simp add: image_attempt_def Let_def is_download_def)
  have p2: "filter is_download (fst (snd (image_attempt w' p a s'))) =
        [FileGet (extract_file_id content') t'] \<and>
      fst (image_attempt w' p a s') =
        (case download_reply w' (n_download s1') of
           DownloadRaise e \<Rightarrow> None
         | DownloadResponse status data \<Rightarrow> if status = 200 then Some data else None)"
    if h: "get_gigachat_token w' s' = (Some t', es', s1') \<and> t' \<noteq> [] \<and>
      completion_reply w' (n_completion s1') = CompletionResponse 200 (Some content') \<and>
      py_in img_marker content'"
    using h get_token_facts(5) [of w' s' "Some t'" es' s1']
    by (simp add: image_attempt_def Let_def is_download_def
        split: download_reply.splits exn.splits)
  have p3: "extract_file_id content' = takeWhile (\<lambda>c. c \<noteq> 34) (drop (i + 10) content')"
    if "py_find content' img_marker 0 = int i \<and> 34 \<in> set (drop (i + 10) content')"
    using that by (simp add: extract_file_id_quote)
  have p4: "\<exists>j k c tok.
         n_completion s' \<le> j \<and> completion_reply w' j = CompletionResponse 200 (Some c) \<and>
         py_in img_marker c \<and>
         FileGet (extract_file_id c) tok \<in> set (fst (snd (gigachat_generate_image w' p n s'))) \<and>
         n_download s' \<le> k \<and> download_reply w' k = DownloadResponse 200 bytes"
    if "fst (gigachat_generate_image w' p n s') = Some bytes"
    using image_loop_some [of w' p 0 n s' bytes] that
    by (simp add: gigachat_generate_image_def)
  from p1 p2 p3 p4 show ?thesis by blast
qed


theorem card_from_tag_witness:
  "fst (get_gigachat_token tag_late_world init_state) = Some ''tokenA'' \<and>
   \<not> py_in img_marker plain_content \<and>
   fst (image_attempt tag_late_world (CardPrompt Feminine (name anna)) 0 init_state) = None \<and>
   py_in img_marker tagged_content \<and>
   filter is_download
     (fst (snd (image_attempt quiet_world (CardPrompt Feminine (name anna)) 0 init_state))) =
     [FileGet [97, 98] ''tokenA''] \<and>
   py_find tagged_content img_marker 0 = 0 \<and>
   extract_file_id tagged_content = takeWhile (\<lambda>c. c \<noteq> 34) (drop 10 tagged_content) \<and>
   fst (gigachat_generate_image quiet_world (CardPrompt Feminine (name anna)) 2 init_state) =
     Some [1, 2, 3]"
proof -
  let ?p = "CardPrompt Feminine (name anna)"
  let ?ta = "get_gigachat_token tag_late_world init_state"
  let ?tb = "get_gigachat_token quiet_world init_state"
  have a: "?ta = (Some ''tokenA'', fst (snd ?ta), snd (snd ?ta)) \<and> ''tokenA'' \<noteq> [] \<and>
      completion_reply tag_late_world (n_completion (snd (snd ?ta))) =
        CompletionResponse 200 (Some plain_content) \<and>
      \<not> py_in img_marker plain_content"
    by (simp add: eval_defs token_defs world_defs tag_late_world_def)
  have b: "?tb = (Some ''tokenA'', fst (snd ?tb), snd (snd ?tb)) \<and> ''tokenA'' \<noteq> [] \<and>
      completion_reply quiet_world (n_completion (snd (snd ?tb))) =
        CompletionResponse 200 (Some tagged_content) \<and>
      py_in img_marker tagged_content"
    by (simp add: eval_defs token_defs world_defs)
  have c: "py_find tagged_content img_marker 0 = int 0 \<and> 34 \<in> set (drop (0 + 10) tagged_content)"
    by (simp add: eval_defs)
  have d: "fst (gigachat_generate_image quiet_world ?p 2 init_state) = Some [1, 2, 3]"
    by (simp add: eval_defs token_defs world_defs numeral_2_eq_2)
  have e: "extract_file_id tagged_content = [97, 98]"
    by (simp add: eval_defs)
  have f: "fst ?ta = Some ''tokenA''"
    using a by (metis fst_conv)
  from card_from_tag [where w = tag_late_world and s = init_state and t = "''tokenA''"
      and es = "fst (snd ?ta)" and ?s1.0 = "snd (snd ?ta)" and content = plain_content
      and w' = quiet_world and s' = init_state and t' = "''tokenA''"
      and es' = "fst (snd ?tb)" and s1' = "snd (snd ?tb)" and content' = tagged_content
      and i = 0 and p = ?p and a = 0 and n = 2 and bytes = "[1, 2, 3]"] a b c d e f
  show ?thesis by simp
qed

section \<open>Concurrent callers of the token cache\<close>

lemma token_alone_sequential: "token_alone w s = get_gigachat_token w s"
proof (cases "cache_valid w s")
  case (fields valid es s1)
  show ?thesis
    by (simp add: token_alone_def caller_step_def token_begin_def token_finish_def
        get_gigachat_token_def oauth_refresh_def fields Let_def
        split: oauth_reply.splits option.splits)
qed

lemmas conc_defs = caller_step_def token_begin_def token_finish_def cache_valid_def
  datetime_now_def truthy_def truthy_num_def is_oauth_def

text \<open>
  C8, as the code has it.  Two callers that find no credential and overlap at the await
  each send their own OAuth request.
\<close>

theorem double_refresh_counterexample:
  "\<not> credential_fresh quiet_world init_state \<and>
   fst (run_schedule quiet_world [0, 1, 0, 1] [Ready, Ready] init_state) =
     [Done (Some ''tokenA''), Done (Some ''tokenA'')] \<and>
   length (filter is_oauth
     (fst (snd (run_schedule quiet_world [0, 1, 0, 1] [Ready, Ready] init_state)))) = 2"
  by (simp add: conc_defs world_defs credential_fresh_def)

lemma sequential_schedule_example:
  "length (filter is_oauth
     (fst (snd (run_schedule quiet_world [0, 0, 1, 1] [Ready, Ready] init_state)))) = 1"
  by (simp add: conc_defs world_defs)

lemma is_oauth_simps [simp]:
  "is_oauth OAuthPost" "\<not> is_oauth ClockRead" "\<not> is_oauth (TokenFetched r)"
  "\<not> is_oauth (Print l)"
  by (simp_all add: is_oauth_def)

lemma token_calls_fresh:
  assumes "cache_token s = Some t" "t \<noteq> []" "cache_expires s = Some x" "x \<noteq> 0"
    and "\<forall>j<n. dt_timestamp (clock w (n_clock s + j)) < x - 60"
  shows "fst (token_calls w n s) = replicate n (Some t) \<and>
         filter is_oauth (fst (snd (token_calls w n s))) = []"
  using assms
proof (induction n arbitrary: s)
  case 0
  show ?case by simp
next
  case (Suc n)
  from Suc.prems have "dt_timestamp (clock w (n_clock s + 0)) < x - 60" by blast
  with Suc.prems have fresh: "credential_fresh w s"
    by (simp add: credential_fresh_def)
  let ?s1 = "s\<lparr>n_clock := Suc (n_clock s)\<rparr>"
  have later: "\<forall>j<n. dt_timestamp (clock w (n_clock ?s1 + j)) < x - 60"
  proof (intro allI impI)
    fix j assume "j < n"
    then have "Suc j < Suc n" by simp
    with Suc.prems(5) have "dt_timestamp (clock w (n_clock s + Suc j)) < x - 60" by blast
    then show "dt_timestamp (clock w (n_clock ?s1 + j)) < x - 60" by simp
  qed
  from Suc.IH [of ?s1] Suc.prems later
  have ih: "fst (token_calls w n ?s1) = replicate n (Some t) \<and>
      filter is_oauth (fst (snd (token_calls w n ?s1))) = []"
    by simp
  then show ?case
    using Suc.prems(1)
    by (cases "token_calls w n ?s1") (simp add: get_token_fresh [OF fresh])
qed

text \<open>
  C8, amended.  When no valid credential is cached and the callers come one after the
  other, each call returning before the next begins, the first call sends the one OAuth
  request and, if it succeeds with an expiry more than 60 seconds after the clock
  readings of the calls that follow, every call returns its token and no other request
  is sent.
\<close>

theorem single_refresh_in_sequence:
  assumes "\<not> credential_fresh w s" and "truthy (GIGACHAT_AUTH w)"
    and "oauth_reply w (n_oauth s) = OAuthResponse 200 (Some t) (Some e)"
    and "t \<noteq> []" and "e \<noteq> 0"
    and "\<forall>j<Suc n. dt_timestamp (clock w (n_clock s + j)) < of_int e / 1000 - 60"
  shows "fst (token_calls w (Suc n) s) = replicate (Suc n) (Some t) \<and>
         length (filter is_oauth (fst (snd (token_calls w (Suc n) s)))) = 1"
proof -
  obtain valid es0 s0 where cv: "cache_valid w s = (valid, es0, s0)"
    by (cases "cache_valid w s")
  have s0: "n_oauth s0 = n_oauth s" "filter is_oauth es0 = []"
    "n_clock s0 = n_clock s \<or> n_clock s0 = Suc (n_clock s)"
    using cv by (auto simp: cache_valid_cases split: if_splits)
  let ?s1 = "s0\<lparr>n_oauth := Suc (n_oauth s0), cache_token := Some t,
      cache_expires := Some (of_int e / 1000)\<rparr>"
  have first: "get_gigachat_token w s = (Some t, es0 @ [OAuthPost, TokenFetched (Some t)], ?s1)"
    using assms(3) s0(1)
    by (simp add: get_token_stale [OF assms(1)] cv oauth_refresh_ok [OF assms(2)])
  have later: "\<forall>j<n. dt_timestamp (clock w (n_clock ?s1 + j)) < of_int e / 1000 - 60"
  proof (intro allI impI)
    fix j assume j: "j < n"
    from s0(3) show "dt_timestamp (clock w (n_clock ?s1 + j)) < of_int e / 1000 - 60"
    proof
      assume "n_clock s0 = n_clock s"
      with assms(6) j show ?thesis by simp
    next
      assume a: "n_clock s0 = Suc (n_clock s)"
      from j have "Suc j < Suc n" by simp
      with assms(6) have "dt_timestamp (clock w (n_clock s + Suc j)) < of_int e / 1000 - 60"
        by blast
      with a show ?thesis by simp
    qed
  qed
  have nz: "(of_int e / 1000 :: rat) \<noteq> 0" using assms(5) by simp
  from token_calls_fresh [of ?s1 t "of_int e / 1000" n w] assms(4) nz later
  have rest: "fst (token_calls w n ?s1) = replicate n (Some t) \<and>
      filter is_oauth (fst (snd (token_calls w n ?s1))) = []"
    by simp
  then show ?thesis
    using s0(2)
    by (cases "token_calls w n ?s1") (simp add: first)
qed

theorem single_refresh_in_sequence_witness:
  "\<not> credential_fresh quiet_world init_state \<and>
   truthy (GIGACHAT_AUTH quiet_world) \<and>
   oauth_reply quiet_world (n_oauth init_state) =
     OAuthResponse 200 (Some ''tokenA'') (Some 5000000) \<and>
   fst (token_calls quiet_world (Suc 2) init_state) = replicate (Suc 2) (Some ''tokenA'') \<and>
   length (filter is_oauth (fst (snd (token_calls quiet_world (Suc 2) init_state)))) = 1"
proof -
  have h1: "\<not> credential_fresh quiet_world init_state"
    by (simp add: credential_fresh_def world_defs)
  have h2: "truthy (GIGACHAT_AUTH quiet_world)"
    by (simp add: truthy_def world_defs)
  have h3: "oauth_reply quiet_world (n_oauth init_state) =
      OAuthResponse 200 (Some ''tokenA'') (Some 5000000)"
    by (simp add: world_defs)
  have h4: "''tokenA'' \<noteq> []" by simp
  have h5: "(5000000::int) \<noteq> 0" by simp
  have h6: "\<forall>j<Suc 2. dt_timestamp (clock quiet_world (n_clock init_state + j)) <
      of_int 5000000 / 1000 - 60"
    by (simp add: world_defs less_Suc_eq numeral_2_eq_2)
  from single_refresh_in_sequence [OF h1 h2 h3 h4 h5 h6] h1 h2 h3
  show ?thesis by blast
qed

section \<open>Failure isolation in the dispatcher\<close>

lemma with_failures_sends: "filter is_send (with_failures f k es) = filter is_send es"
  by (induction es arbitrary: k) (simp_all add: is_send_def)

lemma texts_handed_simps [simp]:
  "texts_handed [] = []"
  "texts_handed (e # es) = text_to e @ texts_handed es"
  "texts_handed (xs @ ys) = texts_handed xs @ texts_handed ys"
  by (simp_all add: texts_handed_def)

lemma texts_handed_quiet: "filter is_send es = [] \<Longrightarrow> texts_handed es = []"
  by (induction es) (auto simp: text_to_def is_send_def split: event.splits if_splits)

lemma greetings_quiet: "filter is_send es = [] \<Longrightarrow> filter is_greeting es = []"
  by (induction es) (auto simp: is_greeting_def is_send_def split: event.splits if_splits)

lemma failures_logged_replay: "failures_logged f k (with_failures f k es)"
  by (induction es arbitrary: k) (simp_all add: is_send_def)

lemma clock_read_simps:
  "\<not> is_send ClockRead" "\<not> is_sleep ClockRead" "\<not> is_greeting ClockRead"
  "text_to ClockRead = []"
  by (simp_all add: is_send_def is_sleep_def is_greeting_def text_to_def)

lemma try_send_message_sends:
  "filter is_send (fst (snd (try_send_message w c m lg s))) = [SendMessage c m]"
  by (simp add: try_send_message_def bot_send_message_def is_send_def split: option.splits)

lemma photo_attempt_texts:
  "texts_handed (photo_attempt w c nm i cd k) = []"
  "filter is_greeting (photo_attempt w c nm i cd k) = []"
  by (simp_all add: photo_attempt_def text_to_def is_greeting_def split: option.splits)

lemma try_card_texts:
  "texts_handed (fst (snd (try_card w c nm g i s))) = [] \<and>
   filter is_greeting (fst (snd (try_card w c nm g i s))) = []"
  using generate_card_trace [of w nm g s]
  by (cases "generate_birthday_card w nm g s")
    (simp add: try_card_run texts_handed_quiet greetings_quiet photo_attempt_texts)

lemma greet_birthday_texts:
  "texts_handed (fst (snd (greet_birthday w c b s))) = [(c, name b)] \<and>
   length (filter is_sleep (fst (snd (greet_birthday w c b s)))) =
     length (filter is_greeting (fst (snd (greet_birthday w c b s))))"
proof -
  obtain g es1 s1 where dg: "detect_gender w (name b) s = (g, es1, s1)"
    by (cases "detect_gender w (name b) s")
  obtain gr es2 s2 where gg: "generate_greeting w (name b) s1 = (gr, es2, s2)"
    by (cases "generate_greeting w (name b) s1")
  note q1 = detect_gender_trace [of w "name b" s, unfolded dg, simplified]
  note q2 = generate_greeting_trace [of w "name b" s1, unfolded gg, simplified]
  have t12: "texts_handed es1 = []" "texts_handed es2 = []"
    "filter is_greeting es1 = []" "filter is_greeting es2 = []"
    using q1 q2 by (simp_all add: texts_handed_quiet greetings_quiet)
  show ?thesis
  proof (cases "truthy gr")
    case True
    obtain u es3 s3 where ts: "try_send_message w c (BirthdayGreeting (name b) (the gr))
        (LogSendTextError c) s2 = (u, es3, s3)"
      by (cases "try_send_message w c (BirthdayGreeting (name b) (the gr)) (LogSendTextError c) s2")
    obtain u1 e1 t1 where k1: "try_card w c (name b) g 0 s3 = (u1, e1, t1)"
      by (cases "try_card w c (name b) g 0 s3")
    obtain u2 e2 t2 where k2: "try_card w c (name b) g (Suc 0) t1 = (u2, e2, t2)"
      by (cases "try_card w c (name b) g (Suc 0) t1")
    note q3 = try_send_message_trace [of w c "BirthdayGreeting (name b) (the gr)"
        "LogSendTextError c" s2, unfolded ts, simplified]
    have q3': "texts_handed es3 = [(c, name b)]" "length (filter is_greeting es3) = 1"
      using ts
      by (auto simp: try_send_message_def bot_send_message_def text_to_def
          is_greeting_def split: option.splits)
    note q4 = try_card_no_sleep [of w c "name b" g 0 s3, unfolded k1, simplified]
    note q5 = try_card_no_sleep [of w c "name b" g "Suc 0" t1, unfolded k2, simplified]
    note q6 = try_card_texts [of w c "name b" g 0 s3, unfolded k1, simplified]
    note q7 = try_card_texts [of w c "name b" g "Suc 0" t1, unfolded k2, simplified]
    have ev: "fst (snd (greet_birthday w c b s)) =
        es1 @ es2 @ es3 @ e1 @ [Print (LogPause IMAGE_DELAY 2), Sleep IMAGE_DELAY] @ e2"
      using True by (simp add: greet_birthday_def dg gg ts send_cards_two k1 k2)
    from q1 q2 q3 q3' q4 q5 q6 q7 t12 show ?thesis
      by (simp add: ev is_sleep_def is_greeting_def text_to_def)
  next
    case False
    obtain u es3 s3 where ts: "try_send_message w c (BirthdayFallback (name b))
        (LogSendError c) s2 = (u, es3, s3)"
      by (cases "try_send_message w c (BirthdayFallback (name b)) (LogSendError c) s2")
    note q3 = try_send_message_trace [of w c "BirthdayFallback (name b)" "LogSendError c" s2,
        unfolded ts, simplified]
    have q3': "texts_handed es3 = [(c, name b)]" "filter is_greeting es3 = []"
      using ts
      by (auto simp: try_send_message_def bot_send_message_def text_to_def
          is_greeting_def split: option.splits)
    have ev: "fst (snd (greet_birthday w c b s)) = es1 @ es2 @ es3"
      using False by (simp add: greet_birthday_def dg gg ts)
    from q1 q2 q3 q3' t12 show ?thesis
      by (simp add: ev)
  qed
qed

lemma greet_birthdays_texts:
  "texts_handed (fst (snd (greet_birthdays w c bs s))) = map (\<lambda>b. (c, name b)) bs \<and>
   length (filter is_sleep (fst (snd (greet_birthdays w c bs s)))) =
     length (filter is_greeting (fst (snd (greet_birthdays w c bs s))))"
proof (induction bs arbitrary: s)
  case Nil
  show ?case by simp
next
  case (Cons b bs)
  obtain u1 es1 s1 where g0: "greet_birthday w c b s = (u1, es1, s1)"
    by (cases "greet_birthday w c b s")
  obtain u2 es2 s2 where r0: "greet_birthdays w c bs s1 = (u2, es2, s2)"
    by (cases "greet_birthdays w c bs s1")
  from greet_birthday_texts [of w c b s] Cons.IH [of s1]
  show ?case by (simp add: g0 r0)
qed

lemma daily_loop_texts:
  assumes "\<forall>n. dt_day (clock w n) = d \<and> dt_month (clock w n) = m"
  shows "texts_handed (fst (snd (daily_loop w ss s))) =
     concat (map (\<lambda>(c, code). map (\<lambda>b. (c, name b))
       (filter (\<lambda>b. day b = d \<and> month b = m) (load_birthdays w code))) ss) \<and>
   length (filter is_sleep (fst (snd (daily_loop w ss s)))) =
     length (filter is_greeting (fst (snd (daily_loop w ss s))))"
proof (induction ss arbitrary: s)
  case Nil
  show ?case by simp
next
  case (Cons x ss)
  obtain c code where x: "x = (c, code)" by (cases x)
  have t0: "get_birthdays_today w (load_birthdays w code) s =
      (filter (\<lambda>b. day b = d \<and> month b = m) (load_birthdays w code), [ClockRead],
       s\<lparr>n_clock := Suc (n_clock s)\<rparr>)"
    using assms by (simp add: get_birthdays_today_def datetime_now_def)
  obtain u2 es2 s2 where g0: "greet_birthdays w c
      (filter (\<lambda>b. day b = d \<and> month b = m) (load_birthdays w code))
      (s\<lparr>n_clock := Suc (n_clock s)\<rparr>) = (u2, es2, s2)"
    by (cases "greet_birthdays w c
      (filter (\<lambda>b. day b = d \<and> month b = m) (load_birthdays w code))
      (s\<lparr>n_clock := Suc (n_clock s)\<rparr>)")
  obtain u3 es3 s3 where r0: "daily_loop w ss s2 = (u3, es3, s3)"
    by (cases "daily_loop w ss s2")
  from greet_birthdays_texts [of w c "filter (\<lambda>b. day b = d \<and> month b = m) (load_birthdays w code)"
      "s\<lparr>n_clock := Suc (n_clock s)\<rparr>"] Cons.IH [of s2]
  show ?case
    by (simp add: x t0 g0 r0 clock_read_simps)
qed

lemma monthly_loop_sends:
  assumes "\<forall>n. dt_day (clock w n) = d \<and> dt_month (clock w n) = m"
  shows "filter is_send (fst (snd (monthly_loop w cm ss s))) =
     map (\<lambda>(c, code). SendMessage c
       (month_text cm (filter (\<lambda>b. month b = m) (load_birthdays w code)))) ss"
proof (induction ss arbitrary: s)
  case Nil
  show ?case by simp
next
  case (Cons x ss)
  obtain c code where x: "x = (c, code)" by (cases x)
  have t0: "get_birthdays_this_month w (load_birthdays w code) s =
      (filter (\<lambda>b. month b = m) (load_birthdays w code), [ClockRead],
       s\<lparr>n_clock := Suc (n_clock s)\<rparr>)"
    using assms by (simp add: get_birthdays_this_month_def datetime_now_def)
  obtain u2 es2 s2 where g0: "try_send_message w c
      (month_text cm (filter (\<lambda>b. month b = m) (load_birthdays w code))) (LogSendError c)
      (s\<lparr>n_clock := Suc (n_clock s)\<rparr>) = (u2, es2, s2)"
    by (cases "try_send_message w c
      (month_text cm (filter (\<lambda>b. month b = m) (load_birthdays w code))) (LogSendError c)
      (s\<lparr>n_clock := Suc (n_clock s)\<rparr>)")
  obtain u3 es3 s3 where r0: "monthly_loop w cm ss s2 = (u3, es3, s3)"
    by (cases "monthly_loop w cm ss s2")
  from try_send_message_sends [of w c
      "month_text cm (filter (\<lambda>b. month b = m) (load_birthdays w code))" "LogSendError c"
      "s\<lparr>n_clock := Suc (n_clock s)\<rparr>"] Cons.IH [of s2]
  show ?case
    by (simp add: x t0 g0 r0 clock_read_simps)
qed

lemma monthly_reminder_sends:
  assumes "\<forall>n. dt_day (clock w n) = d \<and> dt_month (clock w n) = m"
  shows "filter is_send (fst (snd (monthly_reminder w s))) =
     map (\<lambda>(c, code). SendMessage c
       (month_text m (filter (\<lambda>b. month b = m) (load_birthdays w code)))) (sessions w)"
proof -
  have t0: "datetime_now w s = (clock w (n_clock s), [ClockRead], s\<lparr>n_clock := Suc (n_clock s)\<rparr>)"
    by (simp add: datetime_now_def)
  have cm: "dt_month (clock w (n_clock s)) = m" using assms by simp
  from monthly_loop_sends [OF assms, of m "sessions w" "s\<lparr>n_clock := Suc (n_clock s)\<rparr>"]
  show ?thesis
    by (cases "monthly_loop w m (sessions w) (s\<lparr>n_clock := Suc (n_clock s)\<rparr>)")
      (simp add: monthly_reminder_def t0 cm clock_read_simps)
qed

lemma bundles_handed_simps [simp]:
  "bundles_handed [] = []"
  "bundles_handed (e # es) = handed e @ bundles_handed es"
  "bundles_handed (xs @ ys) = bundles_handed xs @ bundles_handed ys"
  by (simp_all add: bundles_handed_def)

lemma bundles_handed_quiet: "filter is_send es = [] \<Longrightarrow> bundles_handed es = []"
  by (induction es) (auto simp: handed_def is_send_def split: event.splits if_splits)

lemma try_card_bundle:
  assumes "truthy (fst (generate_birthday_card w nm g s))"
  shows "bundles_handed (fst (snd (try_card w c nm g i s))) = [(c, nm, Suc i)]"
proof -
  obtain cd es s1 where gc: "generate_birthday_card w nm g s = (cd, es, s1)"
    by (cases "generate_birthday_card w nm g s")
  from assms gc obtain data where cd: "cd = Some data" "data \<noteq> []"
    by (auto simp: truthy_def split: option.splits)
  from generate_card_trace [of w nm g s] gc have q: "bundles_handed es = []"
    by (simp add: bundles_handed_quiet)
  show ?thesis
    by (simp add: try_card_run gc cd q photo_attempt_def handed_def)
qed

lemma greet_birthday_bundle:
  assumes "\<forall>nm s. truthy (fst (generate_greeting w nm s))"
    and "\<forall>nm g s. truthy (fst (generate_birthday_card w nm g s))"
  shows "bundles_handed (fst (snd (greet_birthday w c b s))) =
     [(c, name b, 0), (c, name b, 1), (c, name b, 2)]"
proof -
  obtain g es1 s1 where dg: "detect_gender w (name b) s = (g, es1, s1)"
    by (cases "detect_gender w (name b) s")
  obtain gr es2 s2 where gg: "generate_greeting w (name b) s1 = (gr, es2, s2)"
    by (cases "generate_greeting w (name b) s1")
  note q1 = detect_gender_trace [of w "name b" s, unfolded dg, simplified]
  note q2 = generate_greeting_trace [of w "name b" s1, unfolded gg, simplified]
  have t12: "bundles_handed es1 = []" "bundles_handed es2 = []"
    using q1 q2 by (simp_all add: bundles_handed_quiet)
  from assms(1) [rule_format, of "name b" s1] gg have tr: "truthy gr" by simp
  obtain u es3 s3 where ts: "try_send_message w c (BirthdayGreeting (name b) (the gr))
      (LogSendTextError c) s2 = (u, es3, s3)"
    by (cases "try_send_message w c (BirthdayGreeting (name b) (the gr)) (LogSendTextError c) s2")
  obtain u1 e1 t1 where k1: "try_card w c (name b) g 0 s3 = (u1, e1, t1)"
    by (cases "try_card w c (name b) g 0 s3")
  obtain u2 e2 t2 where k2: "try_card w c (name b) g (Suc 0) t1 = (u2, e2, t2)"
    by (cases "try_card w c (name b) g (Suc 0) t1")
  have q3: "bundles_handed es3 = [(c, name b, 0)]"
    using ts
    by (auto simp: try_send_message_def bot_send_message_def handed_def split: option.splits)
  note q4 = try_card_bundle [of w "name b" g s3 c 0, OF assms(2) [rule_format], unfolded k1,
      simplified]
  note q5 = try_card_bundle [of w "name b" g t1 c "Suc 0", OF assms(2) [rule_format], unfolded k2,
      simplified]
  have ev: "fst (snd (greet_birthday w c b s)) =
      es1 @ es2 @ es3 @ e1 @ [Print (LogPause IMAGE_DELAY 2), Sleep IMAGE_DELAY] @ e2"
    using tr by (simp add: greet_birthday_def dg gg ts send_cards_two k1 k2)
  from t12 q3 q4 q5 show ?thesis
    by (simp add: ev handed_def numeral_2_eq_2)
qed

lemma greet_birthdays_bundle:
  assumes "\<forall>nm s. truthy (fst (generate_greeting w nm s))"
    and "\<forall>nm g s. truthy (fst (generate_birthday_card w nm g s))"
  shows "bundles_handed (fst (snd (greet_birthdays w c bs s))) =
     concat (map (\<lambda>b. [(c, name b, 0), (c, name b, 1), (c, name b, 2)]) bs)"
proof (induction bs arbitrary: s)
  case Nil
  show ?case by simp
next
  case (Cons b bs)
  obtain u1 es1 s1 where g0: "greet_birthday w c b s = (u1, es1, s1)"
    by (cases "greet_birthday w c b s")
  obtain u2 es2 s2 where r0: "greet_birthdays w c bs s1 = (u2, es2, s2)"
    by (cases "greet_birthdays w c bs s1")
  from greet_birthday_bundle [OF assms, of c b s] Cons.IH [of s1]
  show ?case by (simp add: g0 r0)
qed

lemma daily_loop_bundle:
  assumes "\<forall>n. dt_day (clock w n) = d \<and> dt_month (clock w n) = m"
    and "\<forall>nm s. truthy (fst (generate_greeting w nm s))"
    and "\<forall>nm g s. truthy (fst (generate_birthday_card w nm g s))"
  shows "bundles_handed (fst (snd (daily_loop w ss s))) =
     concat (map (\<lambda>(c, code). concat (map (\<lambda>b. [(c, name b, 0), (c, name b, 1), (c, name b, 2)])
       (filter (\<lambda>b. day b = d \<and> month b = m) (load_birthdays w code)))) ss)"
proof (induction ss arbitrary: s)
  case Nil
  show ?case by simp
next
  case (Cons x ss)
  obtain c code where x: "x = (c, code)" by (cases x)
  have t0: "get_birthdays_today w (load_birthdays w code) s =
      (filter (\<lambda>b. day b = d \<and> month b = m) (load_birthdays w code), [ClockRead],
       s\<lparr>n_clock := Suc (n_clock s)\<rparr>)"
    using assms(1) by (simp add: get_birthdays_today_def datetime_now_def)
  obtain u2 es2 s2 where g0: "greet_birthdays w c
      (filter (\<lambda>b. day b = d \<and> month b = m) (load_birthdays w code))
      (s\<lparr>n_clock := Suc (n_clock s)\<rparr>) = (u2, es2, s2)"
    by (cases "greet_birthdays w c
      (filter (\<lambda>b. day b = d \<and> month b = m) (load_birthdays w code))
      (s\<lparr>n_clock := Suc (n_clock s)\<rparr>)")
  obtain u3 es3 s3 where r0: "daily_loop w ss s2 = (u3, es3, s3)"
    by (cases "daily_loop w ss s2")
  have cr: "handed ClockRead = []" by (simp add: handed_def)
  from greet_birthdays_bundle [OF assms(2,3), of c
      "filter (\<lambda>b. day b = d \<and> month b = m) (load_birthdays w code)"
      "s\<lparr>n_clock := Suc (n_clock s)\<rparr>"] Cons.IH [of s2]
  show ?case
    by (simp add: x t0 g0 r0 cr)
qed

lemma three_recipients_generate:
  "\<forall>nm s. truthy (fst (generate_greeting three_recipients_world nm s))"
  "\<forall>nm g s. truthy (fst (generate_birthday_card three_recipients_world nm g s))"
  by (auto simp: eval_defs token_defs world_defs three_recipients_world_def
      split: option.splits prod.splits)

lemma three_recipients_run:
  "filter is_send (fst (snd (daily_birthday_check three_recipients_world init_state))) =
     [SendMessage 101 (BirthdayGreeting (name oleg) tagged_content),
      SendPhoto 101 [1, 2, 3] 1 (name oleg), SendPhoto 101 [1, 2, 3] 2 (name oleg),
      SendMessage 102 (BirthdayGreeting (name oleg) tagged_content),
      SendPhoto 102 [1, 2, 3] 1 (name oleg), SendPhoto 102 [1, 2, 3] 2 (name oleg),
      SendMessage 103 (BirthdayGreeting (name oleg) tagged_content),
      SendPhoto 103 [1, 2, 3] 1 (name oleg), SendPhoto 103 [1, 2, 3] 2 (name oleg)]"
  "filter is_send_log (fst (snd (daily_birthday_check three_recipients_world init_state))) =
     [Print (LogSendTextError 102)]"
  by (simp_all add: dispatch_defs eval_defs token_defs world_defs three_recipients_world_def
      trace_defs is_send_log_def)

lemma three_recipients_due:
  "(\<forall>n. dt_day (clock three_recipients_world n) = 4 \<and>
        dt_month (clock three_recipients_world n) = 11)"
  "send_reply three_recipients_world 3 = Some OtherError"
  "concat (map (\<lambda>(c, code). map (\<lambda>b. (c, name b))
       (filter (\<lambda>b. day b = 4 \<and> month b = 11) (load_birthdays three_recipients_world code)))
     (sessions three_recipients_world)) =
     [(101, name oleg), (102, name oleg), (103, name oleg)]"
  "map (\<lambda>(c, code). SendMessage c
       (month_text 11 (filter (\<lambda>b. month b = 11) (load_birthdays three_recipients_world code))))
     (sessions three_recipients_world) =
     [SendMessage 101 (MonthSummary 11 [(4, name oleg)]),
      SendMessage 102 (MonthSummary 11 [(4, name oleg)]),
      SendMessage 103 (MonthSummary 11 [(4, name oleg)])]"
  "concat (map (\<lambda>(c, code). concat (map (\<lambda>b. [(c, name b, 0), (c, name b, 1), (c, name b, 2)])
       (filter (\<lambda>b. day b = 4 \<and> month b = 11) (load_birthdays three_recipients_world code))))
     (sessions three_recipients_world)) =
     [(101, name oleg, 0), (101, name oleg, 1), (101, name oleg, 2),
      (102, name oleg, 0), (102, name oleg, 1), (102, name oleg, 2),
      (103, name oleg, 0), (103, name oleg, 1), (103, name oleg, 2)]"
  by (simp_all add: three_recipients_world_def world_defs demo_birthdays_def oleg_def
      month_text_def numeral_3_eq_3)

text \<open>
  C1.  A transport error while delivering is caught and logged, and the dispatch goes on
  to every remaining recipient and subject.  On a day \<open>d\<close> of month \<open>m\<close>, whatever the
  transport answers to any send:
  \<^item> the daily check hands the transport one birthday text, greeting or fallback, for
    every subject due that day of every recipient, in the order of the sessions and of
    the lists, and for every greeting it goes through the card loop up to the pause
    before the second card;
  \<^item> when every greeting and every card is generated, it hands the transport the whole
    bundle of every subject due that day of every recipient: the greeting text, card 1
    and card 2, in that order;
  \<^item> the monthly reminder hands the transport one message for every recipient, the
    summary of that recipient's month;
  \<^item> every send that the transport refuses is directly followed by the line of its
    handler;
  \<^item> the run is the run in the world whose transport never fails, with those lines put
    in and no other difference: the same messages and photos are handed over in the
    same order, and the run ends in the same state.
\<close>

theorem delivery_isolation:
  assumes "\<forall>n. dt_day (clock w n) = d \<and> dt_month (clock w n) = m"
  shows
  "texts_handed (fst (snd (daily_birthday_check w s))) =
     concat (map (\<lambda>(c, code). map (\<lambda>b. (c, name b))
       (filter (\<lambda>b. day b = d \<and> month b = m) (load_birthdays w code))) (sessions w)) \<and>
   length (filter is_sleep (fst (snd (daily_birthday_check w s)))) =
     length (filter is_greeting (fst (snd (daily_birthday_check w s)))) \<and>
   ((\<forall>nm s'. truthy (fst (generate_greeting w nm s'))) \<and>
    (\<forall>nm g s'. truthy (fst (generate_birthday_card w nm g s'))) \<longrightarrow>
    bundles_handed (fst (snd (daily_birthday_check w s))) =
      concat (map (\<lambda>(c, code). concat (map (\<lambda>b. [(c, name b, 0), (c, name b, 1), (c, name b, 2)])
        (filter (\<lambda>b. day b = d \<and> month b = m) (load_birthdays w code)))) (sessions w))) \<and>
   filter is_send (fst (snd (monthly_reminder w s))) =
     map (\<lambda>(c, code). SendMessage c
       (month_text m (filter (\<lambda>b. month b = m) (load_birthdays w code)))) (sessions w) \<and>
   failures_logged (send_reply w) (n_send s) (fst (snd (daily_birthday_check w s))) \<and>
   failures_logged (send_reply w) (n_send s) (fst (snd (monthly_reminder w s))) \<and>
   daily_birthday_check w s =
     replay (send_reply w) (n_send s) (daily_birthday_check (calm w) s) \<and>
   monthly_reminder w s =
     replay (send_reply w) (n_send s) (monthly_reminder (calm w) s) \<and>
   filter is_send (fst (snd (daily_birthday_check w s))) =
     filter is_send (fst (snd (daily_birthday_check (calm w) s))) \<and>
   filter is_send (fst (snd (monthly_reminder w s))) =
     filter is_send (fst (snd (monthly_reminder (calm w) s))) \<and>
   snd (snd (daily_birthday_check w s)) = snd (snd (daily_birthday_check (calm w) s)) \<and>
   snd (snd (monthly_reminder w s)) = snd (snd (monthly_reminder (calm w) s))"
proof -
  have d: "daily_birthday_check w s =
      replay (send_reply w) (n_send s) (daily_birthday_check (calm w) s)"
    using daily_loop_replayed [of w s "sessions w"]
    by (simp add: daily_birthday_check_def replayed_def calm_simps)
  have m: "monthly_reminder w s =
      replay (send_reply w) (n_send s) (monthly_reminder (calm w) s)"
    using monthly_reminder_replayed [of w s] by (simp add: replayed_def)
  have rel: "filter is_send (fst (snd (daily_birthday_check w s))) =
     filter is_send (fst (snd (daily_birthday_check (calm w) s))) \<and>
   filter is_send (fst (snd (monthly_reminder w s))) =
     filter is_send (fst (snd (monthly_reminder (calm w) s))) \<and>
   snd (snd (daily_birthday_check w s)) = snd (snd (daily_birthday_check (calm w) s)) \<and>
   snd (snd (monthly_reminder w s)) = snd (snd (monthly_reminder (calm w) s))"
    by (subst (1 2) d, subst (1 2) m)
      (simp add: replay_def with_failures_sends split: prod.splits)
  have fl: "failures_logged (send_reply w) (n_send s) (fst (snd (daily_birthday_check w s)))"
    "failures_logged (send_reply w) (n_send s) (fst (snd (monthly_reminder w s)))"
    by (subst d, simp add: replay_def failures_logged_replay split: prod.splits)
      (subst m, simp add: replay_def failures_logged_replay split: prod.splits)
  note a = daily_loop_texts [OF assms, of "sessions w" s, folded daily_birthday_check_def]
  note b = monthly_reminder_sends [OF assms, of s]
  have c: "bundles_handed (fst (snd (daily_birthday_check w s))) =
      concat (map (\<lambda>(c, code). concat (map (\<lambda>b. [(c, name b, 0), (c, name b, 1), (c, name b, 2)])
        (filter (\<lambda>b. day b = d \<and> month b = m) (load_birthdays w code)))) (sessions w))"
    if "\<forall>nm s'. truthy (fst (generate_greeting w nm s'))"
      and "\<forall>nm g s'. truthy (fst (generate_birthday_card w nm g s'))"
    using daily_loop_bundle [OF assms that, of "sessions w" s]
    by (simp add: daily_birthday_check_def)
  from a b c fl d m rel show ?thesis by blast
qed

text \<open>Three recipients with one subject each, and the transport refuses the greeting
  text of the second: all three are handed the text and both cards, the reminder of the
  month goes to all three, and the one line printed is that of the second recipient.\<close>

theorem delivery_isolation_witness:
  "(\<forall>n. dt_day (clock three_recipients_world n) = 4 \<and>
        dt_month (clock three_recipients_world n) = 11) \<and>
   (\<forall>nm s. truthy (fst (generate_greeting three_recipients_world nm s))) \<and>
   (\<forall>nm g s. truthy (fst (generate_birthday_card three_recipients_world nm g s))) \<and>
   send_reply three_recipients_world 3 = Some OtherError \<and>
   texts_handed (fst (snd (daily_birthday_check three_recipients_world init_state))) =
     [(101, name oleg), (102, name oleg), (103, name oleg)] \<and>
   bundles_handed (fst (snd (daily_birthday_check three_recipients_world init_state))) =
     [(101, name oleg, 0), (101, name oleg, 1), (101, name oleg, 2),
      (102, name oleg, 0), (102, name oleg, 1), (102, name oleg, 2),
      (103, name oleg, 0), (103, name oleg, 1), (103, name oleg, 2)] \<and>
   filter is_send (fst (snd (daily_birthday_check three_recipients_world init_state))) =
     [SendMessage 101 (BirthdayGreeting (name oleg) tagged_content),
      SendPhoto 101 [1, 2, 3] 1 (name oleg), SendPhoto 101 [1, 2, 3] 2 (name oleg),
      SendMessage 102 (BirthdayGreeting (name oleg) tagged_content),
      SendPhoto 102 [1, 2, 3] 1 (name oleg), SendPhoto 102 [1, 2, 3] 2 (name oleg),
      SendMessage 103 (BirthdayGreeting (name oleg) tagged_content),
      SendPhoto 103 [1, 2, 3] 1 (name oleg), SendPhoto 103 [1, 2, 3] 2 (name oleg)] \<and>
   filter is_send_log (fst (snd (daily_birthday_check three_recipients_world init_state))) =
     [Print (LogSendTextError 102)] \<and>
   filter is_send (fst (snd (monthly_reminder three_recipients_world init_state))) =
     [SendMessage 101 (MonthSummary 11 [(4, name oleg)]),
      SendMessage 102 (MonthSummary 11 [(4, name oleg)]),
      SendMessage 103 (MonthSummary 11 [(4, name oleg)])]"
proof -
  note h = three_recipients_due(1)
  from delivery_isolation [OF h, of init_state]
  have t: "texts_handed (fst (snd (daily_birthday_check three_recipients_world init_state))) =
      concat (map (\<lambda>(c, code). map (\<lambda>b. (c, name b))
        (filter (\<lambda>b. day b = 4 \<and> month b = 11) (load_birthdays three_recipients_world code)))
      (sessions three_recipients_world))"
    and m: "filter is_send (fst (snd (monthly_reminder three_recipients_world init_state))) =
      map (\<lambda>(c, code). SendMessage c
        (month_text 11 (filter (\<lambda>b. month b = 11) (load_birthdays three_recipients_world code))))
      (sessions three_recipients_world)"
    and b: "(\<forall>nm s. truthy (fst (generate_greeting three_recipients_world nm s))) \<and>
      (\<forall>nm g s. truthy (fst (generate_birthday_card three_recipients_world nm g s))) \<longrightarrow>
      bundles_handed (fst (snd (daily_birthday_check three_recipients_world init_state))) =
      concat (map (\<lambda>(c, code). concat (map (\<lambda>b. [(c, name b, 0), (c, name b, 1), (c, name b, 2)])
        (filter (\<lambda>b. day b = 4 \<and> month b = 11) (load_birthdays three_recipients_world code))))
      (sessions three_recipients_world))"
    by blast+
  note g = three_recipients_generate
  from b g have b': "bundles_handed
      (fst (snd (daily_birthday_check three_recipients_world init_state))) =
      concat (map (\<lambda>(c, code). concat (map (\<lambda>b. [(c, name b, 0), (c, name b, 1), (c, name b, 2)])
        (filter (\<lambda>b. day b = 4 \<and> month b = 11) (load_birthdays three_recipients_world code))))
      (sessions three_recipients_world))"
    by blast
  from h g three_recipients_due(2) t [unfolded three_recipients_due(3)]
    b' [unfolded three_recipients_due(5)]
    m [unfolded three_recipients_due(4)] three_recipients_run
  show ?thesis by blast
qed

section \<open>Worked runs\<close>

lemma refetch_example:
  "gigachat_request rotating_world (GreetingPrompt nm) default_max_retries init_state =
     (Some plain_content,
      [OAuthPost, TokenFetched (Some ''tokenA''),
       CompletionPost GigaChat ''tokenA'' (GreetingPrompt nm), Print (LogApiStatus 401),
       ClockRead, OAuthPost, TokenFetched (Some ''tokenB''),
       CompletionPost GigaChat ''tokenB'' (GreetingPrompt nm)],
      \<lparr>cache_token = Some ''tokenB'', cache_expires = Some 5000, n_clock = 1, n_oauth = 2,
         n_completion = 2, n_download = 0, n_send = 0\<rparr>)"
  by (simp add: eval_defs token_defs world_defs rotating_world_def)

end
